theory Spec2Isabelle
  imports Complex_Main "HOL-Library.Sublist" "HOL-Library.Multiset"
begin

section \<open>Data model (types.ts, constants.ts)\<close>

text \<open>
  JavaScript numbers that only ever hold integers (scores, counters, coordinates,
  timestamps) are modelled as \<open>int\<close>; the results of \<open>Math.random()\<close> and the fractional
  products of the spawn and time formulas are modelled as \<open>real\<close>. A coordinate
  \<open>{r, c}\<close> is the pair \<open>(r, c)\<close>.
\<close>

type_synonym Coordinate = "int \<times> int"

datatype TileStatus = IDLE | SELECTED | VALID | REJECT | INVALID | MATCHED | EXPLODED

record TileData =
  id_tile :: string
  letter :: string
  status :: TileStatus
  key :: real
  color :: string
  isNew :: bool
  isBlocked :: bool
  isBomb :: bool

datatype GameMode = CASUAL | TIMED

datatype Difficulty = EASY | NORMAL | HARD

datatype Screen = MENU | GAME | GAMEOVER | LEVEL_UP | LEADERBOARD

record GameState =
  score :: int
  wordCount :: int
  bestWord :: string
  lastScoreAdded :: "int option"
  level :: int
  timeLeft :: int
  targetScore :: int
  streakShort :: int
  streakLong :: int

record HighScoreEntry =
  entry_score :: int
  entry_bestWord :: string
  entry_date :: int
  entry_level :: "int option"

type_synonym Grid = "TileData list list"

definition GRID_SIZE :: int where
  "GRID_SIZE = 6"

definition MIN_WORD_LENGTH :: nat where
  "MIN_WORD_LENGTH = 3"

definition MAX_WORD_LENGTH :: nat where
  "MAX_WORD_LENGTH = 10"

definition TILE_COLORS :: "string list" where
  "TILE_COLORS = [''PINK'', ''BLUE'', ''TEAL'', ''PURPLE'', ''INDIGO'']"

definition WILD_COLOR :: string where
  "WILD_COLOR = ''GOLD''"

definition LETTER_POOL :: string where
  "LETTER_POOL =
     ''EEEEEEEEEEEEAAAAAAAAAIIIIIIIIIOOOOOOOONNNNNNRRRRRRTTTTTTLLLLSSSSUUUUDDDDGGGBBCCMMPPFFHHVVWWYYKJXQZ''"

definition SCORES :: "nat \<Rightarrow> int option" where
  "SCORES = [3 \<mapsto> 10, 4 \<mapsto> 20, 5 \<mapsto> 40, 6 \<mapsto> 80, 7 \<mapsto> 150, 8 \<mapsto> 300, 9 \<mapsto> 500, 10 \<mapsto> 1000]"

text \<open>
  Reading \<open>grid[r][c]\<close> and then a property of the tile throws a TypeError when the row
  or the cell does not exist. Every function that reads the grid therefore returns an
  \<open>option\<close>: \<open>None\<close> is the thrown TypeError, \<open>Some v\<close> the normal completion with \<open>v\<close>.
\<close>

definition cell :: "Grid \<Rightarrow> Coordinate \<Rightarrow> TileData option" where
  "cell g p =
     (case p of (r, c) \<Rightarrow>
        if 0 \<le> r \<and> r < int (length g) \<and> 0 \<le> c \<and> c < int (length (g ! nat r))
        then Some (g ! nat r ! nat c) else None)"

definition setCell :: "Grid \<Rightarrow> Coordinate \<Rightarrow> TileData \<Rightarrow> Grid" where
  "setCell g p t = (case p of (r, c) \<Rightarrow> g[nat r := (g ! nat r)[nat c := t]])"

section \<open>Dictionary trie\<close>

text \<open>
  \<open>TrieNode.children\<close> is an object keyed by the characters that \<open>for (const char of word)\<close>
  yields; it is modelled as a partial map from characters to nodes. \<open>insert\<close> walks down
  from the root, creating the missing nodes, and marks the last node; \<open>search\<close> returns
  the numbers 0 (no match), 1 (prefix only) and 2 (exact word).
\<close>

datatype TrieNode = TrieNode (isEndOfWord: bool) (children: "char \<Rightarrow> TrieNode option")

definition newTrieNode :: TrieNode where
  "newTrieNode = TrieNode False (\<lambda>_. None)"

datatype Trie = Trie (trie_root: TrieNode)

definition newTrie :: Trie where
  "newTrie = Trie newTrieNode"

fun node_insert :: "TrieNode \<Rightarrow> string \<Rightarrow> TrieNode" where
  "node_insert node [] = TrieNode True (children node)"
| "node_insert node (ch # rest) =
     TrieNode (isEndOfWord node)
       ((children node)(ch \<mapsto>
          node_insert (case children node ch of None \<Rightarrow> newTrieNode | Some k \<Rightarrow> k) rest))"

definition trie_insert :: "Trie \<Rightarrow> string \<Rightarrow> Trie" where
  "trie_insert t word = Trie (node_insert (trie_root t) word)"

fun node_search :: "TrieNode \<Rightarrow> string \<Rightarrow> nat" where
  "node_search node [] = (if isEndOfWord node then 2 else 1)"
| "node_search node (ch # rest) =
     (case children node ch of None \<Rightarrow> 0 | Some k \<Rightarrow> node_search k rest)"

definition trie_search :: "Trie \<Rightarrow> string \<Rightarrow> nat" where
  "trie_search t word = node_search (trie_root t) word"

text \<open>The loader's \<open>words.forEach(w => newTrie.insert(w))\<close> on a fresh trie.\<close>

definition buildTrie :: "string list \<Rightarrow> Trie" where
  "buildTrie ws = foldl trie_insert newTrie ws"

text \<open>
  The loader keeps the lines of the word list whose length lies between
  \<open>MIN_WORD_LENGTH\<close> and \<open>MAX_WORD_LENGTH\<close> (the lines taken as already trimmed and
  upper-cased); these words make up the dictionary set and the trie.
\<close>

definition dictionaryWords :: "string list \<Rightarrow> string list" where
  "dictionaryWords ls =
     filter (\<lambda>w. length w \<ge> MIN_WORD_LENGTH \<and> length w \<le> MAX_WORD_LENGTH) ls"

text \<open>
  The reading of "S shares no prefix with any inserted word": no non-empty string is
  a prefix of both S and an inserted word.
\<close>

definition sharesPrefix :: "string \<Rightarrow> string \<Rightarrow> bool" where
  "sharesPrefix s w = (s \<noteq> [] \<and> w \<noteq> [] \<and> hd s = hd w)"

definition sharesNoPrefix :: "string \<Rightarrow> string list \<Rightarrow> bool" where
  "sharesNoPrefix s ws = list_all (\<lambda>w. \<not> sharesPrefix s w) ws"

section \<open>Leaderboard\<close>

text \<open>
  The browser store holds one item per mode. \<open>getLeaderboard\<close> returns the parsed list,
  or the empty list when the item is absent or does not parse; the store is modelled by
  what parsing yields, \<open>None\<close> covering both failures. \<open>Array.prototype.sort\<close> is a
  stable sort, here by descending score.
\<close>

type_synonym Storage = "GameMode \<Rightarrow> HighScoreEntry list option"

definition getLeaderboard :: "Storage \<Rightarrow> GameMode \<Rightarrow> HighScoreEntry list" where
  "getLeaderboard store m = (case store m of None \<Rightarrow> [] | Some data \<Rightarrow> data)"

definition saveScore :: "Storage \<Rightarrow> GameMode \<Rightarrow> HighScoreEntry \<Rightarrow> Storage \<times> bool" where
  "saveScore store m entry =
     (let scores = getLeaderboard store m @ [entry];
          sorted_scores = sort_key (\<lambda>e. - entry_score e) scores;
          topScores = take 10 sorted_scores
      in (store(m \<mapsto> topScores),
          list_ex (\<lambda>s. entry_date s = entry_date entry \<and> entry_score s = entry_score entry)
            topScores))"

section \<open>Tile generation\<close>

text \<open>
  \<open>generateTile\<close> draws from \<open>Math.random()\<close>. The model passes the outcomes of the draws
  one tile needs as a record: the string \<open>generateId()\<close> returns, and the values of the
  calls for the key, the roll, the letter, the wild test and the colour. The contract of
  \<open>Math.random()\<close> is \<open>0 \<le> u < 1\<close>, under which both index computations stay inside
  their tables; outside it JavaScript would read \<open>undefined\<close>, rendered here by the
  empty string.
\<close>

record Draws =
  draw_id :: string
  draw_key :: real
  draw_roll :: real
  draw_letter :: real
  draw_wild :: real
  draw_color :: real

datatype SpecialType = BLOCKED | BOMB

definition getRandomLetter :: "real \<Rightarrow> string" where
  "getRandomLetter u =
     (let i = \<lfloor>u * real (length LETTER_POOL)\<rfloor>
      in if 0 \<le> i \<and> i < int (length LETTER_POOL) then [LETTER_POOL ! nat i] else [])"

definition randomColor :: "real \<Rightarrow> string" where
  "randomColor u =
     (let i = \<lfloor>u * real (length TILE_COLORS)\<rfloor>
      in if 0 \<le> i \<and> i < int (length TILE_COLORS) then TILE_COLORS ! nat i else [])"

definition blockedTile :: "Draws \<Rightarrow> bool \<Rightarrow> TileData" where
  "blockedTile d new =
     \<lparr>id_tile = draw_id d, letter = [], status = IDLE, key = draw_key d,
      color = ''GRAY'', isNew = new, isBlocked = True, isBomb = False\<rparr>"

definition bombTile :: "Draws \<Rightarrow> bool \<Rightarrow> TileData" where
  "bombTile d new =
     \<lparr>id_tile = draw_id d, letter = getRandomLetter (draw_letter d), status = IDLE,
      key = draw_key d, color = ''RAINBOW'', isNew = new, isBlocked = False, isBomb = True\<rparr>"

definition blockedChance :: "int \<Rightarrow> GameMode \<Rightarrow> real" where
  "blockedChance lvl m =
     (if m = TIMED then min 0.25 (real_of_int lvl * 0.03)
      else min 0.20 (0.04 + real_of_int lvl * 0.01))"

definition generateTile :: "int \<Rightarrow> GameMode \<Rightarrow> bool \<Rightarrow> SpecialType option \<Rightarrow> Draws \<Rightarrow> TileData" where
  "generateTile lvl m new forcedType d =
     (if forcedType = Some BLOCKED then blockedTile d new
      else if forcedType = Some BOMB then bombTile d new
      else if draw_roll d < blockedChance lvl m then blockedTile d new
      else if draw_roll d < blockedChance lvl m + 0.08 then bombTile d new
      else \<lparr>id_tile = draw_id d, letter = getRandomLetter (draw_letter d), status = IDLE,
            key = draw_key d,
            color = (if draw_wild d < 0.08 then WILD_COLOR else randomColor (draw_color d)),
            isNew = new, isBlocked = False, isBomb = False\<rparr>)"

text \<open>
  The source of draws is a sequence \<open>rnd\<close>; \<open>k\<close> counts the tiles generated so far.
  \<open>createInitialGrid\<close> ignores its \<open>level\<close> argument and generates at level 1.
\<close>

definition createInitialGrid :: "(nat \<Rightarrow> Draws) \<Rightarrow> nat \<Rightarrow> int \<Rightarrow> GameMode \<Rightarrow> Grid" where
  "createInitialGrid rnd k lvl m =
     map (\<lambda>r. map (\<lambda>c. generateTile 1 m False None (rnd (k + r * 6 + c))) [0..<6]) [0..<6]"

section \<open>Adjacency and the deadlock search\<close>

definition isAdjacent :: "Coordinate \<Rightarrow> Coordinate \<Rightarrow> bool" where
  "isAdjacent c1 c2 =
     (let dr = \<bar>fst c1 - fst c2\<bar>; dc = \<bar>snd c1 - snd c2\<bar>
      in dr \<le> 1 \<and> dc \<le> 1 \<and> \<not> (dr = 0 \<and> dc = 0))"

definition neighbors :: "Coordinate \<Rightarrow> Coordinate list" where
  "neighbors p =
     (case p of (r, c) \<Rightarrow>
        [(r - 1, c - 1), (r - 1, c), (r - 1, c + 1),
         (r, c - 1), (r, c + 1),
         (r + 1, c - 1), (r + 1, c), (r + 1, c + 1)])"

definition inBounds :: "int \<Rightarrow> int \<Rightarrow> Coordinate \<Rightarrow> bool" where
  "inBounds rows cols n = (fst n \<ge> 0 \<and> fst n < rows \<and> snd n \<ge> 0 \<and> snd n < cols)"

text \<open>
  The inner \<open>search\<close> of \<open>findFirstWord\<close> and its loop over the eight neighbours;
  \<open>search_loop ... i\<close> is the loop standing at neighbour \<open>i\<close>. The result \<open>Some None\<close>
  is \<open>null\<close>, \<open>Some (Some path)\<close> a found path.
\<close>

function search :: "Grid \<Rightarrow> Trie \<Rightarrow> int \<Rightarrow> int \<Rightarrow> Coordinate \<Rightarrow> Coordinate list \<Rightarrow> string
                      \<Rightarrow> Coordinate list option option"
  and search_loop :: "Grid \<Rightarrow> Trie \<Rightarrow> int \<Rightarrow> int \<Rightarrow> Coordinate \<Rightarrow> Coordinate list \<Rightarrow> string
                      \<Rightarrow> nat \<Rightarrow> Coordinate list option option"
where
  "search g t rows cols p path currentStr =
     (case cell g p of
        None \<Rightarrow> None
      | Some tile \<Rightarrow>
          if isBlocked tile then Some None
          else if trie_search t (currentStr @ letter tile) = 0 then Some None
          else if trie_search t (currentStr @ letter tile) = 2
                  \<and> length (currentStr @ letter tile) \<ge> MIN_WORD_LENGTH
               then Some (Some (path @ [p]))
          else if length (currentStr @ letter tile) \<ge> 8 then Some None
          else search_loop g t rows cols p path (currentStr @ letter tile) 0)"
| "search_loop g t rows cols p path str i =
     (if i \<ge> length (neighbors p) then Some None
      else if inBounds rows cols (neighbors p ! i) \<and> neighbors p ! i \<notin> set path then
        (case search g t rows cols (neighbors p ! i) (path @ [p]) str of
           None \<Rightarrow> None
         | Some (Some res) \<Rightarrow> Some (Some res)
         | Some None \<Rightarrow> search_loop g t rows cols p path str (Suc i))
      else search_loop g t rows cols p path str (Suc i))"
  by pat_completeness auto
termination
proof (relation "inv_image (less_than <*lex*> less_than)
    (\<lambda>x. case x of
       Inl (g, t, rows, cols, p, path, s) \<Rightarrow>
         (card ({q. inBounds rows cols q} - set path - {p}), 9)
     | Inr (g, t, rows, cols, p, path, s, i) \<Rightarrow>
         (card ({q. inBounds rows cols q} - set path - {p}), 8 - i))", goal_cases)
  case 1
  show ?case by (intro wf_inv_image wf_lex_prod wf_less_than)
next
  case (2 g t rows cols p path currentStr tile)
  then show ?case by simp
next
  case (3 g t rows cols p path str i)
  have fin: "finite {q. inBounds rows cols q}"
  proof (rule finite_subset)
    show "{q. inBounds rows cols q} \<subseteq> {0..<rows} \<times> {0..<cols}"
      by (auto simp: inBounds_def)
  qed simp
  let ?n = "neighbors p ! i"
  from 3 have i: "i < 8" and inb: "inBounds rows cols ?n" and fresh: "?n \<notin> set path"
    by (auto simp: neighbors_def split: prod.splits)
  have ne: "?n \<noteq> p"
  proof -
    obtain r c where p: "p = (r, c)" by (cases p)
    have "\<forall>q \<in> set (neighbors p). q \<noteq> p"
      by (simp add: p neighbors_def)
    moreover have "length (neighbors p) = 8"
      by (simp add: p neighbors_def)
    with i have "?n \<in> set (neighbors p)"
      by (intro nth_mem) simp
    ultimately show ?thesis by blast
  qed
  have "{q. inBounds rows cols q} - set (path @ [p]) - {?n}
          \<subset> {q. inBounds rows cols q} - set path - {p}"
    using inb fresh ne by auto
  then have "card ({q. inBounds rows cols q} - set (path @ [p]) - {?n})
          < card ({q. inBounds rows cols q} - set path - {p})"
    using fin by (intro psubset_card_mono) auto
  then show ?case by simp
next
  case (4 g t rows cols p path str i)
  then show ?case by (auto simp: neighbors_def split: prod.splits)
next
  case (5 g t rows cols p path str i)
  then show ?case by (auto simp: neighbors_def split: prod.splits)
qed

declare search.simps [simp del] search_loop.simps [simp del]

text \<open>The two loops over the starting cells, row by row.\<close>

fun findFrom :: "Grid \<Rightarrow> Trie \<Rightarrow> int \<Rightarrow> int \<Rightarrow> Coordinate list \<Rightarrow> Coordinate list option option" where
  "findFrom g t rows cols [] = Some None"
| "findFrom g t rows cols (p # ps) =
     (case search g t rows cols p [] [] of
        None \<Rightarrow> None
      | Some (Some res) \<Rightarrow> Some (Some res)
      | Some None \<Rightarrow> findFrom g t rows cols ps)"

definition findFirstWord :: "Grid \<Rightarrow> Trie \<Rightarrow> Coordinate list option option" where
  "findFirstWord g t =
     (case g of
        [] \<Rightarrow> None
      | row0 # _ \<Rightarrow>
          findFrom g t (int (length g)) (int (length row0))
            (concat (map (\<lambda>r. map (\<lambda>c. (int r, int c)) [0..<length row0]) [0..<length g])))"

section \<open>The application state and its handlers\<close>

text \<open>
  The React state of \<open>App\<close> that the puzzle engine reads and writes, with the spawn queue
  (a ref), the number of tiles drawn so far and the browser store. Feedback text, sounds
  and flying-tile animations are presentation only and are left out. A handler is a
  function from the state to the next state; the body of a \<open>setTimeout\<close> callback is a
  handler of its own, run when its timer fires.
\<close>

record App =
  screen :: Screen
  mode :: GameMode
  difficulty :: Difficulty
  grid :: Grid
  selection :: "Coordinate list"
  gameState :: GameState
  animating :: bool
  dictionary :: "string set"
  trie :: "Trie option"
  isLoading :: bool
  isHighScore :: bool
  specialSpawnQueue :: "SpecialType list"
  drawn :: nat
  localStorage :: Storage

definition initialGameState :: "GameMode \<Rightarrow> GameState" where
  "initialGameState selectedMode =
     \<lparr>score = 0, wordCount = 0, bestWord = [], lastScoreAdded = None, level = 1,
      timeLeft = (if selectedMode = TIMED then 60 else 0), targetScore = 500,
      streakShort = 0, streakLong = 0\<rparr>"

definition startGame :: "(nat \<Rightarrow> Draws) \<Rightarrow> App \<Rightarrow> GameMode \<Rightarrow> App" where
  "startGame rnd st selectedMode =
     st\<lparr>mode := selectedMode,
        grid := createInitialGrid rnd (drawn st) 1 selectedMode,
        drawn := drawn st + 36,
        gameState := initialGameState selectedMode,
        specialSpawnQueue := [],
        selection := [],
        isHighScore := False,
        screen := GAME\<rparr>"

definition nextLevel :: "App \<Rightarrow> App" where
  "nextLevel st =
     st\<lparr>gameState := (gameState st)
          \<lparr>level := level (gameState st) + 1,
           targetScore := \<lfloor>real_of_int (targetScore (gameState st)) * 1.5\<rfloor> + 500,
           timeLeft := timeLeft (gameState st) + 15\<rparr>,
        screen := GAME\<rparr>"


subsection \<open>Selection\<close>

text \<open>
  A status is written only at coordinates whose tile the same handler has read before,
  so the cell exists; \<open>setStatus\<close> leaves the grid as it is at a coordinate without a cell.
\<close>

definition selectionTiles :: "Grid \<Rightarrow> Coordinate list \<Rightarrow> TileData list option" where
  "selectionTiles g sel = those (map (cell g) sel)"

definition selectionWord :: "Grid \<Rightarrow> Coordinate list \<Rightarrow> string option" where
  "selectionWord g sel = map_option (\<lambda>ts. concat (map letter ts)) (selectionTiles g sel)"

definition setStatus :: "TileStatus \<Rightarrow> Coordinate \<Rightarrow> Grid \<Rightarrow> Grid" where
  "setStatus s p g = (case cell g p of None \<Rightarrow> g | Some t \<Rightarrow> setCell g p (t\<lparr>status := s\<rparr>))"

definition updateTileStatus :: "Grid \<Rightarrow> Coordinate list \<Rightarrow> TileStatus \<Rightarrow> Grid" where
  "updateTileStatus prev coords s =
     fold (setStatus s) coords
       (map (map (\<lambda>tile. tile\<lparr>status :=
          (if status tile = MATCHED \<or> status tile = EXPLODED then status tile else IDLE)\<rparr>)) prev)"

definition selectionStatus :: "Trie \<Rightarrow> string \<Rightarrow> TileStatus" where
  "selectionStatus t word =
     (if length word > 0 then
        (if trie_search t word = 2 \<and> length word \<ge> MIN_WORD_LENGTH then VALID
         else if trie_search t word \<noteq> 0 then SELECTED
         else REJECT)
      else REJECT)"

definition evaluateSelection :: "App \<Rightarrow> Coordinate list \<Rightarrow> App option" where
  "evaluateSelection st currentSelection =
     (case trie st of
        None \<Rightarrow> Some st
      | Some t \<Rightarrow>
          (case selectionWord (grid st) currentSelection of
             None \<Rightarrow> None
           | Some word \<Rightarrow>
               Some (st\<lparr>selection := currentSelection,
                        grid := updateTileStatus (grid st) currentSelection
                                  (selectionStatus t word)\<rparr>)))"

definition handleTouchStart :: "App \<Rightarrow> Coordinate \<Rightarrow> App option" where
  "handleTouchStart st p =
     (if animating st \<or> isLoading st \<or> screen st \<noteq> GAME then Some st
      else (case cell (grid st) p of
              None \<Rightarrow> None
            | Some tile \<Rightarrow> if isBlocked tile then Some st else evaluateSelection st [p]))"

subsection \<open>Match resolution\<close>

definition orElse :: "int option \<Rightarrow> int \<Rightarrow> int" where
  "orElse a b = (case a of None \<Rightarrow> b | Some v \<Rightarrow> if v = 0 then b else v)"

definition baseWordScore :: "nat \<Rightarrow> int" where
  "baseWordScore len = orElse (SCORES len) (orElse (SCORES 10) 10)"

fun explodeAdj :: "Grid \<Rightarrow> Coordinate list \<Rightarrow> Coordinate list \<Rightarrow> Coordinate list
                     \<Rightarrow> Coordinate list option" where
  "explodeAdj g sel [] explodedTiles = Some explodedTiles"
| "explodeAdj g sel (n # ns) explodedTiles =
     (if inBounds GRID_SIZE GRID_SIZE n then
        (if n \<notin> set sel \<and> n \<notin> set explodedTiles then
           (case cell g n of
              None \<Rightarrow> None
            | Some tile \<Rightarrow>
                if status tile \<noteq> EXPLODED then explodeAdj g sel ns (explodedTiles @ [n])
                else explodeAdj g sel ns explodedTiles)
         else explodeAdj g sel ns explodedTiles)
      else explodeAdj g sel ns explodedTiles)"

fun explodeBombs :: "Grid \<Rightarrow> Coordinate list \<Rightarrow> Coordinate list \<Rightarrow> Coordinate list
                       \<Rightarrow> Coordinate list option" where
  "explodeBombs g sel [] explodedTiles = Some explodedTiles"
| "explodeBombs g sel (bomb # bombs) explodedTiles =
     (case explodeAdj g sel (neighbors bomb) explodedTiles of
        None \<Rightarrow> None
      | Some ex \<Rightarrow> explodeBombs g sel bombs ex)"

definition colorsInWord :: "TileData list \<Rightarrow> string list" where
  "colorsInWord tiles = filter (\<lambda>c. c \<noteq> WILD_COLOR \<and> c \<noteq> ''RAINBOW'') (map color tiles)"

definition hasWild :: "TileData list \<Rightarrow> bool" where
  "hasWild tiles = list_ex (\<lambda>t. color t = WILD_COLOR) tiles"

definition isColorMatch :: "TileData list \<Rightarrow> bool" where
  "isColorMatch tiles =
     (length (colorsInWord tiles) > 0 \<and> length (remdups (colorsInWord tiles)) \<le> 1)"

definition totalScore :: "nat \<Rightarrow> TileData list \<Rightarrow> Coordinate list \<Rightarrow> int" where
  "totalScore len tiles explodedTiles =
     (let afterBonus = (if hasWild tiles then baseWordScore len * 3
                        else if isColorMatch tiles then baseWordScore len * 2
                        else baseWordScore len)
      in if length explodedTiles > 0 then afterBonus + int (length explodedTiles) * 50
         else afterBonus)"

definition isShortPenalty :: "Difficulty \<Rightarrow> nat \<Rightarrow> bool" where
  "isShortPenalty d len =
     (if d = EASY then False
      else if d = NORMAL then len = 3
      else if d = HARD then len = 3 \<or> len = 4
      else False)"

text \<open>The streak counters after the word, and what is pushed on the spawn queue.\<close>

definition streakUpdate :: "Difficulty \<Rightarrow> nat \<Rightarrow> int \<Rightarrow> int \<Rightarrow> int \<times> int \<times> SpecialType list" where
  "streakUpdate d len oldShort oldLong =
     (if isShortPenalty d len then
        (oldShort + 1, 0, if oldShort + 1 \<ge> 2 then [BLOCKED] else [])
      else if len \<ge> 5 then
        (0, oldLong + 1, if oldLong + 1 \<ge> 2 then [BOMB] else [])
      else (0, 0, []))"

definition timeAdded :: "GameMode \<Rightarrow> int \<Rightarrow> nat \<Rightarrow> TileData list \<Rightarrow> int" where
  "timeAdded m lvl len tiles =
     (if m = TIMED then
        \<lceil>real len * max 0.2 (1 - (real_of_int lvl - 1) * 0.15)\<rceil>
          + (if hasWild tiles then 3 else if isColorMatch tiles then 2 else 0)
      else 0)"

definition handleValidWord :: "App \<Rightarrow> string \<Rightarrow> App option" where
  "handleValidWord st word =
     (case selectionTiles (grid st) (selection st) of
        None \<Rightarrow> None
      | Some tiles \<Rightarrow>
          (case explodeBombs (grid st) (selection st)
                  (map fst (filter (\<lambda>pt. isBomb (snd pt)) (zip (selection st) tiles))) [] of
             None \<Rightarrow> None
           | Some explodedTiles \<Rightarrow>
               (let total = totalScore (length word) tiles explodedTiles;
                    newGrid = fold (setStatus EXPLODED) explodedTiles
                                (fold (setStatus MATCHED) (selection st) (grid st));
                    prev = gameState st;
                    streaks = streakUpdate (difficulty st) (length word)
                                (streakShort prev) (streakLong prev);
                    added = timeAdded (mode st) (level prev) (length word) tiles
                in Some (st\<lparr>animating := True,
                            grid := newGrid,
                            specialSpawnQueue := specialSpawnQueue st @ snd (snd streaks),
                            gameState := prev
                              \<lparr>score := score prev + total,
                               wordCount := wordCount prev + 1,
                               bestWord := (if length word > length (bestWord prev) then word
                                            else bestWord prev),
                               lastScoreAdded := Some total,
                               timeLeft := timeLeft prev + added,
                               streakShort := fst streaks,
                               streakLong := fst (snd streaks)\<rparr>\<rparr>))))"

definition handleInvalidWord :: "App \<Rightarrow> App" where
  "handleInvalidWord st =
     st\<lparr>animating := True, grid := fold (setStatus INVALID) (selection st) (grid st)\<rparr>"

text \<open>The callback \<open>handleInvalidWord\<close> schedules after 400 ms.\<close>

definition invalidReset :: "App \<Rightarrow> App" where
  "invalidReset st =
     st\<lparr>selection := [],
        grid := map (map (\<lambda>tile. tile\<lparr>status := (if status tile = EXPLODED then EXPLODED else IDLE),
                                           isNew := False\<rparr>)) (grid st),
        animating := False\<rparr>"

definition handleTouchEnd :: "App \<Rightarrow> App option" where
  "handleTouchEnd st =
     (if animating st \<or> isLoading st \<or> selection st = [] \<or> screen st \<noteq> GAME then Some st
      else (case selectionWord (grid st) (selection st) of
              None \<Rightarrow> None
            | Some word \<Rightarrow>
                if length word \<ge> MIN_WORD_LENGTH \<and> word \<in> dictionary st
                then handleValidWord st word
                else Some (handleInvalidWord st)))"


definition dragOver :: "App \<Rightarrow> Coordinate option \<Rightarrow> App option" where
  "dragOver st target =
     (case target of
        None \<Rightarrow> Some st
      | Some p \<Rightarrow>
          (case cell (grid st) p of
             None \<Rightarrow> None
           | Some tile \<Rightarrow>
               if isBlocked tile then Some st
               else if length (selection st) > 1
                       \<and> selection st ! (length (selection st) - 2) = p
                    then evaluateSelection st (butlast (selection st))
               else if p \<notin> set (selection st) \<and> isAdjacent (last (selection st)) p
                    then evaluateSelection st (selection st @ [p])
               else Some st))"


subsection \<open>Gravity and refill\<close>

fun newTiles :: "(nat \<Rightarrow> Draws) \<Rightarrow> int \<Rightarrow> GameMode \<Rightarrow> nat \<Rightarrow> SpecialType list \<Rightarrow> nat
                   \<Rightarrow> TileData list \<times> SpecialType list \<times> nat" where
  "newTiles rnd lvl m 0 queue k = ([], queue, k)"
| "newTiles rnd lvl m (Suc needed) queue k =
     (let forced = (case queue of [] \<Rightarrow> None | f # _ \<Rightarrow> Some f);
          tile = generateTile lvl m True forced (rnd k);
          more = newTiles rnd lvl m needed (tl queue) (Suc k)
      in (tile # fst more, snd more))"

definition survives :: "TileData \<Rightarrow> bool" where
  "survives tile = (status tile \<noteq> MATCHED \<and> status tile \<noteq> EXPLODED)"

text \<open>One round of the loop over the columns: column \<open>c\<close> of \<open>prev\<close> is compacted and
  refilled, and written into \<open>newGrid\<close>.\<close>

definition gravityColumn :: "(nat \<Rightarrow> Draws) \<Rightarrow> int \<Rightarrow> GameMode \<Rightarrow> Grid \<Rightarrow> int
     \<Rightarrow> Grid \<times> SpecialType list \<times> nat \<Rightarrow> (Grid \<times> SpecialType list \<times> nat) option" where
  "gravityColumn rnd lvl m prev c acc =
     (case those (map (\<lambda>r. cell prev (r, c)) [0..GRID_SIZE - 1]) of
        None \<Rightarrow> None
      | Some col \<Rightarrow>
          (let colTiles = map (\<lambda>tile. tile\<lparr>isNew := False\<rparr>) (filter survives col);
               needed = nat (GRID_SIZE - int (length colTiles));
               gen = newTiles rnd lvl m needed (fst (snd acc)) (snd (snd acc));
               mergedCol = fst gen @ colTiles
           in Some (fold (\<lambda>r g. setCell g (r, c) (mergedCol ! nat r)) [0..GRID_SIZE - 1] (fst acc),
                    snd gen)))"

fun gravityColumns :: "(nat \<Rightarrow> Draws) \<Rightarrow> int \<Rightarrow> GameMode \<Rightarrow> Grid \<Rightarrow> int list
     \<Rightarrow> Grid \<times> SpecialType list \<times> nat \<Rightarrow> (Grid \<times> SpecialType list \<times> nat) option" where
  "gravityColumns rnd lvl m prev [] acc = Some acc"
| "gravityColumns rnd lvl m prev (c # cs) acc =
     (case gravityColumn rnd lvl m prev c acc of
        None \<Rightarrow> None
      | Some acc' \<Rightarrow> gravityColumns rnd lvl m prev cs acc')"

definition applyGravity :: "(nat \<Rightarrow> Draws) \<Rightarrow> App \<Rightarrow> App option" where
  "applyGravity rnd st =
     (case gravityColumns rnd (level (gameState st)) (mode st) (grid st) [0..GRID_SIZE - 1]
             (grid st, specialSpawnQueue st, drawn st) of
        None \<Rightarrow> None
      | Some res \<Rightarrow>
          Some (st\<lparr>grid := fst res, specialSpawnQueue := fst (snd res), drawn := snd (snd res),
                   selection := [], animating := False\<rparr>))"

text \<open>The callback \<open>handleValidWord\<close> schedules after 600 ms: gravity, then the
  level-up check.\<close>

definition settle :: "(nat \<Rightarrow> Draws) \<Rightarrow> App \<Rightarrow> App option" where
  "settle rnd st =
     (case applyGravity rnd st of
        None \<Rightarrow> None
      | Some st' \<Rightarrow>
          if score (gameState st') \<ge> targetScore (gameState st')
          then Some (st'\<lparr>screen := LEVEL_UP\<rparr>) else Some st')"

subsection \<open>Hint and the casual game-over check\<close>



section \<open>Well-formed grids\<close>

text \<open>The grid of the data model: six rows of six tiles; a tile that is not blocked
  carries a letter.\<close>

definition wf_grid :: "Grid \<Rightarrow> bool" where
  "wf_grid g = (length g = 6 \<and> list_all (\<lambda>row. length row = 6) g)"

definition lettered :: "Grid \<Rightarrow> bool" where
  "lettered g = list_all (list_all (\<lambda>tile. isBlocked tile \<or> letter tile \<noteq> [])) g"

text \<open>The starting cells of \<open>findFirstWord\<close> in the order of its two loops.\<close>

definition startCells :: "nat \<Rightarrow> nat \<Rightarrow> Coordinate list" where
  "startCells rows cols = concat (map (\<lambda>r. map (\<lambda>c. (int r, int c)) [0..<cols]) [0..<rows])"

text \<open>A rectangular grid with \<open>rows\<close> rows of \<open>cols\<close> tiles.\<close>

definition rect :: "Grid \<Rightarrow> int \<Rightarrow> int \<Rightarrow> bool" where
  "rect g rows cols = (rows = int (length g) \<and> list_all (\<lambda>row. int (length row) = cols) g)"

definition column :: "Grid \<Rightarrow> nat \<Rightarrow> TileData list" where
  "column g c = map (\<lambda>row. row ! c) g"

text \<open>What gravity keeps of column \<open>c\<close>: the surviving tiles in their order, no longer
  new (\<open>colTiles\<close> in \<open>applyGravity\<close>).\<close>

definition compacted :: "Grid \<Rightarrow> nat \<Rightarrow> TileData list" where
  "compacted g c = map (\<lambda>tile. tile\<lparr>isNew := False\<rparr>) (filter survives (column g c))"

text \<open>The contract of \<open>Math.random()\<close> for the draw that picks a letter, and what holds
  of a tile that gravity has just generated.\<close>

definition letterDrawsInRange :: "(nat \<Rightarrow> Draws) \<Rightarrow> bool" where
  "letterDrawsInRange rnd = (\<forall>k. 0 \<le> draw_letter (rnd k) \<and> draw_letter (rnd k) < 1)"

definition freshTile :: "(nat \<Rightarrow> Draws) \<Rightarrow> TileData \<Rightarrow> bool" where
  "freshTile rnd t =
     (isNew t \<and> status t = IDLE \<and>
      (letterDrawsInRange rnd \<longrightarrow> isBlocked t \<or> letter t \<noteq> []))"

text \<open>The test of the explosion loop on a neighbour \<open>n\<close> of a bomb, apart from the
  check for duplicates: on the board, not part of the word, not exploded already.\<close>

definition blastable :: "Grid \<Rightarrow> Coordinate list \<Rightarrow> Coordinate \<Rightarrow> bool" where
  "blastable g sel n =
     (inBounds 6 6 n \<and> n \<notin> set sel \<and> (\<exists>tile. cell g n = Some tile \<and> status tile \<noteq> EXPLODED))"

section \<open>A sample board\<close>

text \<open>
  A board for the instances below: the top row spells C, A, T (two blue tiles and a bomb)
  followed by X tiles, every other row is X tiles; the dictionary holds the word CAT, and
  the player has traced the three tiles of the top row.
\<close>

definition plainTile :: "string \<Rightarrow> string \<Rightarrow> TileData" where
  "plainTile l col =
     \<lparr>id_tile = [], letter = l, status = IDLE, key = 0, color = col, isNew = False,
      isBlocked = False, isBomb = False\<rparr>"

definition xRow :: "TileData list" where
  "xRow = replicate 6 (plainTile ''X'' ''PINK'')"

definition sampleGrid :: Grid where
  "sampleGrid =
     [[plainTile ''C'' ''BLUE'', plainTile ''A'' ''BLUE'',
       (plainTile ''T'' ''RAINBOW'')\<lparr>isBomb := True\<rparr>,
       plainTile ''X'' ''PINK'', plainTile ''X'' ''PINK'', plainTile ''X'' ''PINK''],
      xRow, xRow, xRow, xRow, xRow]"

definition sampleApp :: App where
  "sampleApp =
     \<lparr>screen = GAME, mode = CASUAL, difficulty = NORMAL, grid = sampleGrid,
      selection = [(0, 0), (0, 1), (0, 2)], gameState = initialGameState CASUAL,
      animating = False, dictionary = {''CAT''}, trie = Some (buildTrie [''CAT'']),
      isLoading = False, isHighScore = False, specialSpawnQueue = [], drawn = 36,
      localStorage = (\<lambda>_. None)\<rparr>"

text \<open>The sample board after CAT has been committed: the three tiles of the word are
  matched, the four neighbours of the bomb are exploded.\<close>

definition committedGrid :: Grid where
  "committedGrid = fold (setStatus EXPLODED) [(0, 3), (1, 1), (1, 2), (1, 3)]
                     (fold (setStatus MATCHED) [(0, 0), (0, 1), (0, 2)] sampleGrid)"

section \<open>Level advance\<close>

text \<open>C10: \<open>nextLevel\<close> adds one level, raises the target to
  \<open>floor(targetScore * 1.5) + 500\<close>, adds 15 seconds and keeps every other field of the
  session state; the score is carried over as it is.\<close>

theorem nextLevel_fields:
  "level (gameState (nextLevel st)) = level (gameState st) + 1 \<and>
   targetScore (gameState (nextLevel st))
     = \<lfloor>real_of_int (targetScore (gameState st)) * 1.5\<rfloor> + 500 \<and>
   timeLeft (gameState (nextLevel st)) = timeLeft (gameState st) + 15 \<and>
   score (gameState (nextLevel st)) = score (gameState st) \<and>
   wordCount (gameState (nextLevel st)) = wordCount (gameState st) \<and>
   bestWord (gameState (nextLevel st)) = bestWord (gameState st) \<and>
   lastScoreAdded (gameState (nextLevel st)) = lastScoreAdded (gameState st) \<and>
   streakShort (gameState (nextLevel st)) = streakShort (gameState st) \<and>
   streakLong (gameState (nextLevel st)) = streakLong (gameState st)"
  by (simp add: nextLevel_def)

section \<open>The trie: lookup after a sequence of inserts\<close>

lemma node_search_new: "node_search newTrieNode s = (if s = [] then 1 else 0)"
  by (cases s) (simp_all add: newTrieNode_def)

lemma node_search_insert:
  "node_search (node_insert n w) s =
     (if s = w then 2 else if prefix s w then max 1 (node_search n s) else node_search n s)"
proof (induction w arbitrary: n s)
  case Nil
  then show ?case by (cases s) auto
next
  case (Cons a w)
  show ?case
  proof (cases s)
    case Nil
    then show ?thesis by simp
  next
    case (Cons b s')
    then show ?thesis
      using Cons.IH by (auto simp: node_search_new split: option.splits)
  qed
qed

lemma trie_search_insert:
  "trie_search (trie_insert t w) s =
     (if s = w then 2 else if prefix s w then max 1 (trie_search t s) else trie_search t s)"
  by (simp add: trie_search_def trie_insert_def node_search_insert)

lemma trie_search_foldl:
  "trie_search (foldl trie_insert t ws) s =
     (if s \<in> set ws then 2
      else if \<exists>w \<in> set ws. prefix s w then max 1 (trie_search t s)
      else trie_search t s)"
proof (induction ws arbitrary: t)
  case Nil
  then show ?case by simp
next
  case (Cons w ws)
  show ?case
    apply (simp only: foldl_Cons Cons.IH trie_search_insert)
    apply (auto simp: max_def)
    done
qed

lemma trie_search_newTrie: "trie_search newTrie s = (if s = [] then 1 else 0)"
  by (simp add: trie_search_def newTrie_def node_search_new)

lemma trie_search_build:
  "trie_search (buildTrie ws) s =
     (if s \<in> set ws then 2
      else if s = [] \<or> (\<exists>w \<in> set ws. prefix s w) then 1
      else 0)"
  unfolding buildTrie_def trie_search_foldl trie_search_newTrie by auto

lemma sharesNoPrefix_not_prefix:
  assumes "sharesNoPrefix s ws" and "s \<noteq> []" and "w \<in> set ws"
  shows "\<not> prefix s w"
proof
  assume "prefix s w"
  then obtain z where w: "w = s @ z" by (auto simp: prefix_def)
  with assms(2) have "sharesPrefix s w"
    by (cases s) (simp_all add: sharesPrefix_def)
  moreover from assms(1,3) have "\<not> sharesPrefix s w"
    by (simp add: sharesNoPrefix_def list_all_iff)
  ultimately show False by simp
qed

lemma sharesPrefix_iff:
  "sharesPrefix s w \<longleftrightarrow> (\<exists>p. p \<noteq> [] \<and> prefix p s \<and> prefix p w)"
proof
  assume "sharesPrefix s w"
  then obtain a s' w' where "s = a # s'" "w = a # w'"
    by (cases s; cases w) (auto simp: sharesPrefix_def)
  then have "[a] \<noteq> [] \<and> prefix [a] s \<and> prefix [a] w" by simp
  then show "\<exists>p. p \<noteq> [] \<and> prefix p s \<and> prefix p w" by blast
next
  assume "\<exists>p. p \<noteq> [] \<and> prefix p s \<and> prefix p w"
  then obtain p where "p \<noteq> []" "prefix p s" "prefix p w" by blast
  then show "sharesPrefix s w"
    by (cases p) (auto simp: sharesPrefix_def prefix_def)
qed

text \<open>
  C3 (amended): after inserting the words \<open>ws\<close> into a fresh trie, \<open>search\<close> returns 2
  (ExactWord) for every inserted word, 1 (PrefixOnly) for every strict non-empty prefix
  of an inserted word that was not itself inserted, and 0 (NoMatch) for every
  \<^emph>\<open>non-empty\<close> string that shares no prefix with any inserted word; more generally
  for every non-empty string that is a prefix of no inserted word. The empty string is
  never NoMatch, so the third part does not extend to it.
\<close>

theorem buildTrie_search:
  "(\<forall>W \<in> set ws. trie_search (buildTrie ws) W = 2) \<and>
   (\<forall>W \<in> set ws. \<forall>P. P \<noteq> [] \<and> strict_prefix P W \<and> P \<notin> set ws
        \<longrightarrow> trie_search (buildTrie ws) P = 1) \<and>
   (\<forall>S. S \<noteq> [] \<and> sharesNoPrefix S ws \<longrightarrow> trie_search (buildTrie ws) S = 0) \<and>
   (\<forall>S. S \<noteq> [] \<and> (\<forall>W \<in> set ws. \<not> prefix S W) \<longrightarrow> trie_search (buildTrie ws) S = 0)"
proof (intro conjI ballI allI impI)
  fix W assume "W \<in> set ws"
  then show "trie_search (buildTrie ws) W = 2"
    by (simp add: trie_search_build)
next
  fix W P assume "W \<in> set ws" and "P \<noteq> [] \<and> strict_prefix P W \<and> P \<notin> set ws"
  then show "trie_search (buildTrie ws) P = 1"
    by (auto simp: trie_search_build strict_prefix_def)
next
  fix S assume "S \<noteq> [] \<and> sharesNoPrefix S ws"
  then have "\<forall>w \<in> set ws. \<not> prefix S w"
    using sharesNoPrefix_not_prefix by blast
  moreover from this have "S \<notin> set ws" by auto
  ultimately show "trie_search (buildTrie ws) S = 0"
    using \<open>S \<noteq> [] \<and> sharesNoPrefix S ws\<close> by (simp add: trie_search_build)
next
  fix S assume a: "S \<noteq> [] \<and> (\<forall>W \<in> set ws. \<not> prefix S W)"
  then have "S \<notin> set ws" by auto
  with a show "trie_search (buildTrie ws) S = 0"
    by (simp add: trie_search_build)
qed

text \<open>The theorem at the words CAT and CAR: the word CAT, its prefix CA, and DOG.\<close>

theorem buildTrie_search_witness:
  "trie_search (buildTrie [''CAT'', ''CAR'']) ''CAT'' = 2 \<and>
   trie_search (buildTrie [''CAT'', ''CAR'']) ''CA'' = 1 \<and>
   trie_search (buildTrie [''CAT'', ''CAR'']) ''DOG'' = 0 \<and>
   sharesNoPrefix ''DOG'' [''CAT'', ''CAR'']"
proof -
  have snp: "sharesNoPrefix ''DOG'' [''CAT'', ''CAR'']"
    by (simp add: sharesNoPrefix_def sharesPrefix_def)
  have sp: "strict_prefix ''CA'' ''CAT''"
    by (simp add: strict_prefix_def)
  from buildTrie_search [of "[''CAT'', ''CAR'']"] snp sp show ?thesis
    by simp
qed

text \<open>
  C3 as stated fails at the empty string: it shares no prefix with any inserted word
  (there is none in the fresh trie, and it has no first character to share with CAT),
  yet \<open>search\<close> returns 1, not 0.
\<close>

theorem buildTrie_search_empty_counterexample:
  "sharesNoPrefix [] [] \<and> trie_search (buildTrie []) [] = 1 \<and>
   sharesNoPrefix [] [''CAT''] \<and> trie_search (buildTrie [''CAT'']) [] = 1"
  by (simp add: sharesNoPrefix_def sharesPrefix_def trie_search_build)

text \<open>
  C9 (amended): on the empty string \<open>search\<close> never returns 0 (NoMatch), whatever the
  trie. It returns 1 (PrefixOnly) exactly when the root is not marked as the end of a
  word: for the fresh trie, for every trie built from non-empty words, and so for every
  trie the loader builds; it returns 2 (ExactWord) once the empty word has been
  inserted.
\<close>

theorem search_empty_string:
  "trie_search t [] \<noteq> 0 \<and>
   (trie_search t [] = 1 \<longleftrightarrow> \<not> isEndOfWord (trie_root t)) \<and>
   trie_search newTrie [] = 1 \<and>
   ([] \<notin> set ws \<longrightarrow> trie_search (buildTrie ws) [] = 1) \<and>
   trie_search (buildTrie (dictionaryWords ls)) [] = 1 \<and>
   ([] \<in> set ws \<longrightarrow> trie_search (buildTrie ws) [] = 2)"
proof -
  have "trie_search t [] = (if isEndOfWord (trie_root t) then 2 else 1)"
    by (simp add: trie_search_def)
  moreover have "[] \<notin> set (dictionaryWords ls)"
    by (simp add: dictionaryWords_def MIN_WORD_LENGTH_def)
  ultimately show ?thesis
    by (simp add: trie_search_build trie_search_newTrie)
qed

theorem search_empty_string_witness:
  "trie_search (buildTrie [''CAT'']) [] = 1 \<and> trie_search (buildTrie [''CAT'', []]) [] = 2"
  using search_empty_string [where ws = "[''CAT'']"] search_empty_string [where ws = "[''CAT'', []]"]
  by simp

text \<open>C9 as stated fails for the trie into which the empty word was inserted: the
  lookup of the empty string is 2, not 1.\<close>

theorem search_empty_string_counterexample:
  "trie_search (trie_insert newTrie []) [] = 2 \<and> trie_search (trie_insert newTrie []) [] \<noteq> 1"
  by (simp add: trie_search_def trie_insert_def)

section \<open>The leaderboard\<close>

lemma take_drop_sorted_le:
  assumes "sorted (map f xs)" and "a \<in> set (take n xs)" and "b \<in> set (drop n xs)"
  shows "f a \<le> f b"
proof -
  have "sorted (map f (take n xs @ drop n xs))" using assms(1) by simp
  then show ?thesis
    using assms(2,3) unfolding map_append sorted_append by auto
qed

lemma top_all_prior:
  assumes e_out: "e \<notin> set (take n (sort_key f (prior @ [e])))"
  shows "length (take n (sort_key f (prior @ [e]))) = n \<and>
         (\<forall>s \<in> set (take n (sort_key f (prior @ [e]))). f s \<le> f e) \<and>
         n \<le> length (filter (\<lambda>s. f s \<le> f e) prior)"
proof -
  let ?xs = "sort_key f (prior @ [e])"
  let ?top = "take n ?xs"
  have e_in: "e \<in> set ?xs" by simp
  then have e_drop: "e \<in> set (drop n ?xs)"
    using e_out by (metis Un_iff append_take_drop_id set_append)
  then have len: "n < length ?xs"
    by (metis drop_all empty_iff linorder_not_less list.set(1))
  then have l1: "length ?top = n" by simp
  have srt: "sorted (map f ?xs)" by simp
  have l2: "\<forall>s \<in> set ?top. f s \<le> f e"
    using take_drop_sorted_le [OF srt _ e_drop] by blast
  have eq: "mset ?top + mset (drop n ?xs) = add_mset e (mset prior)"
  proof -
    have "mset ?top + mset (drop n ?xs) = mset ?xs"
      by (metis append_take_drop_id mset_append)
    also have "\<dots> = add_mset e (mset prior)" by simp
    finally show ?thesis .
  qed
  from e_drop obtain D where D: "mset (drop n ?xs) = add_mset e D"
    by (meson in_multiset_in_set multi_member_split)
  from eq D have "mset ?top + D = mset prior" by simp
  then have sub: "mset ?top \<subseteq># mset prior"
    by (metis mset_subset_eq_add_left)
  have "filter (\<lambda>s. f s \<le> f e) ?top = ?top"
    using l2 by (simp add: filter_id_conv)
  then have "mset ?top = filter_mset (\<lambda>s. f s \<le> f e) (mset ?top)"
    by (metis mset_filter)
  also have "\<dots> \<subseteq># filter_mset (\<lambda>s. f s \<le> f e) (mset prior)"
    using sub by (rule multiset_filter_mono)
  finally have "size (mset ?top) \<le> size (filter_mset (\<lambda>s. f s \<le> f e) (mset prior))"
    by (rule size_mset_mono)
  then have "n \<le> length (filter (\<lambda>s. f s \<le> f e) prior)"
    using l1 by (simp flip: mset_filter)
  with l1 l2 show ?thesis by blast
qed

lemma saveScore_stored:
  "fst (saveScore store m e) m
     = Some (take 10 (sort_key (\<lambda>s. - entry_score s) (getLeaderboard store m @ [e])))"
  by (simp add: saveScore_def Let_def)

text \<open>
  C8: \<open>saveScore\<close> stores, for its mode, a list of at most 10 entries sorted by
  descending score: the 10 best of the prior list with the new entry (every entry left
  out scores no more than any entry kept). It returns true exactly when the stored list
  holds an entry with the new entry's (date, score) pair. The new entry itself is stored,
  and the result is true, whenever fewer than 10 prior entries score at least as much;
  when the result is false the stored list is full with entries that all score at least
  as much. The list of the other mode is untouched.
\<close>

theorem saveScore_top10:
  assumes "saveScore store m e = (store', b)"
  shows "\<exists>top. store' m = Some top \<and> getLeaderboard store' m = top \<and>
           length top \<le> 10 \<and>
           sorted_wrt (\<lambda>x y. entry_score x \<ge> entry_score y) top \<and>
           mset top \<subseteq># mset (getLeaderboard store m @ [e]) \<and>
           (\<forall>s \<in> set top. \<forall>d. d \<in># mset (getLeaderboard store m @ [e]) - mset top
                \<longrightarrow> entry_score d \<le> entry_score s) \<and>
           (b \<longleftrightarrow> (\<exists>s \<in> set top. entry_date s = entry_date e \<and> entry_score s = entry_score e)) \<and>
           (length (filter (\<lambda>s. entry_score s \<ge> entry_score e) (getLeaderboard store m)) < 10
                \<longrightarrow> b \<and> e \<in> set top) \<and>
           (\<not> b \<longrightarrow> length top = 10 \<and> (\<forall>s \<in> set top. entry_score s \<ge> entry_score e)) \<and>
           (\<forall>m'. m' \<noteq> m \<longrightarrow> store' m' = store m')"
proof -
  let ?f = "\<lambda>s. - entry_score s"
  let ?prior = "getLeaderboard store m"
  let ?xs = "sort_key ?f (?prior @ [e])"
  let ?top = "take 10 ?xs"
  have st: "store' = store(m \<mapsto> ?top)"
    and b: "b = list_ex (\<lambda>s. entry_date s = entry_date e \<and> entry_score s = entry_score e) ?top"
    using assms by (simp_all add: saveScore_def Let_def)
  have 1: "store' m = Some ?top" by (simp add: st)
  then have 2: "getLeaderboard store' m = ?top" by (simp add: getLeaderboard_def)
  have 3: "length ?top \<le> 10" by simp
  have srt: "sorted (map ?f ?xs)" by simp
  then have "sorted_wrt (\<lambda>x y. ?f x \<le> ?f y) ?xs" by (simp add: sorted_map)
  then have "sorted_wrt (\<lambda>x y. ?f x \<le> ?f y) ?top" by (rule sorted_wrt_take)
  then have 4: "sorted_wrt (\<lambda>x y. entry_score x \<ge> entry_score y) ?top" by simp
  have split: "mset ?top + mset (drop 10 ?xs) = mset (?prior @ [e])"
  proof -
    have "mset ?top + mset (drop 10 ?xs) = mset ?xs"
      by (metis append_take_drop_id mset_append)
    then show ?thesis by simp
  qed
  then have 5: "mset ?top \<subseteq># mset (?prior @ [e])"
    by (metis mset_subset_eq_add_left)
  from split have rest: "mset (?prior @ [e]) - mset ?top = mset (drop 10 ?xs)"
    by (metis add_diff_cancel_left')
  have 6: "\<forall>s \<in> set ?top. \<forall>d. d \<in># mset (?prior @ [e]) - mset ?top
              \<longrightarrow> entry_score d \<le> entry_score s"
  proof (intro ballI allI impI)
    fix s d assume s: "s \<in> set ?top" and "d \<in># mset (?prior @ [e]) - mset ?top"
    then have "d \<in> set (drop 10 ?xs)" by (simp only: rest set_mset_mset)
    from take_drop_sorted_le [OF srt s this] show "entry_score d \<le> entry_score s" by simp
  qed
  have 7: "b \<longleftrightarrow> (\<exists>s \<in> set ?top. entry_date s = entry_date e \<and> entry_score s = entry_score e)"
    by (simp add: b list_ex_iff)
  have out: "e \<notin> set ?top \<Longrightarrow> length ?top = 10 \<and> (\<forall>s \<in> set ?top. entry_score s \<ge> entry_score e)
                \<and> 10 \<le> length (filter (\<lambda>s. entry_score s \<ge> entry_score e) ?prior)"
    using top_all_prior [of e 10 ?f ?prior] by simp
  have 8: "length (filter (\<lambda>s. entry_score s \<ge> entry_score e) ?prior) < 10 \<longrightarrow> b \<and> e \<in> set ?top"
    using out 7 by fastforce
  have 9: "\<not> b \<longrightarrow> length ?top = 10 \<and> (\<forall>s \<in> set ?top. entry_score s \<ge> entry_score e)"
    using out 7 by blast
  have 10: "\<forall>m'. m' \<noteq> m \<longrightarrow> store' m' = store m'" by (simp add: st)
  from 1 2 3 4 5 6 7 8 9 10 show ?thesis by blast
qed

text \<open>The theorem on a list of two entries (the new entry ranks second) and on a full
  list of ten better entries (the new entry is dropped).\<close>

theorem saveScore_top10_witness:
  "snd (saveScore (\<lambda>_. Some [\<lparr>entry_score = 30, entry_bestWord = ''GOLDEN'', entry_date = 1, entry_level = None\<rparr>,
                             \<lparr>entry_score = 20, entry_bestWord = ''CAT'', entry_date = 2, entry_level = None\<rparr>])
          CASUAL \<lparr>entry_score = 25, entry_bestWord = ''CARS'', entry_date = 3, entry_level = None\<rparr>) \<and>
   \<not> snd (saveScore
          (\<lambda>_. Some (map (\<lambda>n. \<lparr>entry_score = 100, entry_bestWord = ''GOLDEN'', entry_date = n, entry_level = None\<rparr>)
                        [1, 2, 3, 4, 5, 6, 7, 8, 9, 10]))
          CASUAL \<lparr>entry_score = 5, entry_bestWord = ''CAT'', entry_date = 11, entry_level = None\<rparr>) \<and>
   length (getLeaderboard (fst (saveScore
          (\<lambda>_. Some (map (\<lambda>n. \<lparr>entry_score = 100, entry_bestWord = ''GOLDEN'', entry_date = n, entry_level = None\<rparr>)
                        [1, 2, 3, 4, 5, 6, 7, 8, 9, 10]))
          CASUAL \<lparr>entry_score = 5, entry_bestWord = ''CAT'', entry_date = 11, entry_level = None\<rparr>)) CASUAL) = 10"
proof -
  let ?store = "\<lambda>_ :: GameMode. Some [\<lparr>entry_score = 30, entry_bestWord = ''GOLDEN'', entry_date = 1, entry_level = None\<rparr>,
                             \<lparr>entry_score = 20, entry_bestWord = ''CAT'', entry_date = 2, entry_level = None\<rparr>]"
  let ?e = "\<lparr>entry_score = 25, entry_bestWord = ''CARS'', entry_date = 3, entry_level = None\<rparr>"
  let ?full = "\<lambda>_ :: GameMode. Some (map (\<lambda>n. \<lparr>entry_score = 100, entry_bestWord = ''GOLDEN'', entry_date = n, entry_level = None\<rparr>)
                        [1, 2, 3, 4, 5, 6, 7, 8, 9, 10])"
  let ?low = "\<lparr>entry_score = 5, entry_bestWord = ''CAT'', entry_date = 11, entry_level = None\<rparr>"
  have eq: "saveScore ?store CASUAL ?e = (fst (saveScore ?store CASUAL ?e), snd (saveScore ?store CASUAL ?e))"
    by simp
  have few: "length (filter (\<lambda>s. entry_score s \<ge> entry_score ?e) (getLeaderboard ?store CASUAL)) < 10"
    by (simp add: getLeaderboard_def)
  have eq2: "saveScore ?full CASUAL ?low = (fst (saveScore ?full CASUAL ?low), snd (saveScore ?full CASUAL ?low))"
    by simp
  have no: "\<not> snd (saveScore ?full CASUAL ?low)"
    by (simp add: saveScore_def getLeaderboard_def Let_def)
  from saveScore_top10 [OF eq] few have "snd (saveScore ?store CASUAL ?e)" by blast
  moreover from saveScore_top10 [OF eq2] no
  have "length (getLeaderboard (fst (saveScore ?full CASUAL ?low)) CASUAL) = 10" by blast
  ultimately show ?thesis using no by blast
qed

section \<open>Reading and writing the grid\<close>

lemma cell_setCell:
  "cell g q \<noteq> None \<Longrightarrow> cell (setCell g q t) p = (if p = q then Some t else cell g p)"
  by (cases p; cases q)
     (auto simp: cell_def setCell_def nth_list_update split: if_splits)

lemma cell_setStatus:
  "cell (setStatus s q g) p
     = (if p = q then map_option (\<lambda>t. t\<lparr>status := s\<rparr>) (cell g p) else cell g p)"
  by (cases "cell g q") (auto simp: setStatus_def cell_setCell)

lemma cell_fold_setStatus:
  "cell (fold (setStatus s) ps g) p
     = (if p \<in> set ps then map_option (\<lambda>t. t\<lparr>status := s\<rparr>) (cell g p) else cell g p)"
proof (induction ps arbitrary: g)
  case Nil
  then show ?case by simp
next
  case (Cons q ps)
  show ?case
    by (cases "cell g p") (auto simp: Cons.IH cell_setStatus)
qed

lemma cell_map_map:
  "cell (map (map f) g) p = map_option f (cell g p)"
  by (cases p) (auto simp: cell_def)

lemma wf_grid_cell:
  assumes "wf_grid g" and "inBounds 6 6 p"
  shows "\<exists>tile. cell g p = Some tile"
proof -
  obtain r c where p: "p = (r, c)" by (cases p)
  from assms(2) p have r: "0 \<le> r" "r < 6" and c: "0 \<le> c" "c < 6"
    by (simp_all add: inBounds_def)
  from assms(1) have len: "length g = 6" and rows: "\<forall>row \<in> set g. length row = 6"
    by (simp_all add: wf_grid_def list_all_iff)
  from r len have "g ! nat r \<in> set g" by (intro nth_mem) simp
  with rows have "length (g ! nat r) = 6" by blast
  with r c len show ?thesis by (simp add: p cell_def)
qed

lemma those_map_Some:
  "(\<forall>x \<in> set xs. \<exists>y. f x = Some y) \<Longrightarrow> those (map f xs) = Some (map (\<lambda>x. the (f x)) xs)"
  by (induction xs) auto

lemma those_map_eq_Some:
  "those (map f xs) = Some ys \<Longrightarrow> ys = map (\<lambda>x. the (f x)) xs \<and> (\<forall>x \<in> set xs. \<exists>y. f x = Some y)"
  by (induction xs arbitrary: ys) (auto split: option.splits)

lemma lettered_cell:
  assumes "lettered g" and "cell g p = Some tile"
  shows "isBlocked tile \<or> letter tile \<noteq> []"
proof -
  obtain r c where p: "p = (r, c)" by (cases p)
  from assms(2) p have r: "0 \<le> r" "r < int (length g)"
      and c: "0 \<le> c" "c < int (length (g ! nat r))" and t: "tile = g ! nat r ! nat c"
    by (auto simp: cell_def split: if_splits)
  from r have "g ! nat r \<in> set g" by (intro nth_mem) simp
  moreover from c have "tile \<in> set (g ! nat r)" unfolding t by (intro nth_mem) simp
  ultimately show ?thesis
    using assms(1) by (auto simp: lettered_def list_all_iff)
qed

lemma selectionTiles_Some:
  assumes "\<forall>p \<in> set sel. \<exists>tile. cell g p = Some tile"
  shows "selectionTiles g sel = Some (map (\<lambda>p. the (cell g p)) sel)"
  unfolding selectionTiles_def using assms by (rule those_map_Some)

lemma cell_updateTileStatus:
  "p \<in> set sel \<Longrightarrow>
     cell (updateTileStatus g sel s) p = map_option (\<lambda>t. t\<lparr>status := s\<rparr>) (cell g p)"
  by (cases "cell g p")
     (simp_all add: updateTileStatus_def cell_fold_setStatus cell_map_map)

section \<open>The explosion set\<close>

lemma explodeAdj_total:
  assumes "wf_grid g"
  shows "\<exists>ex'. explodeAdj g sel ns ex = Some ex' \<and>
           set ex' = set ex \<union> {n \<in> set ns. blastable g sel n} \<and>
           (distinct ex \<longrightarrow> distinct ex')"
proof (induction ns arbitrary: ex)
  case Nil
  then show ?case by simp
next
  case (Cons n ns)
  show ?case
  proof (cases "inBounds 6 6 n")
    case False
    then show ?thesis
      using Cons.IH [of ex] by (auto simp: GRID_SIZE_def blastable_def)
  next
    case True
    with assms obtain tile where tile: "cell g n = Some tile"
      using wf_grid_cell by blast
    show ?thesis
    proof (cases "n \<notin> set sel \<and> n \<notin> set ex \<and> status tile \<noteq> EXPLODED")
      case True
      then show ?thesis
        using Cons.IH [of "ex @ [n]"] \<open>inBounds 6 6 n\<close> tile
        by (auto simp: GRID_SIZE_def blastable_def)
    next
      case False
      then show ?thesis
        using Cons.IH [of ex] \<open>inBounds 6 6 n\<close> tile
        by (auto simp: GRID_SIZE_def blastable_def)
    qed
  qed
qed

lemma explodeBombs_total:
  assumes "wf_grid g"
  shows "\<exists>ex'. explodeBombs g sel bombs ex = Some ex' \<and>
           set ex' = set ex \<union> {n. \<exists>b \<in> set bombs. n \<in> set (neighbors b) \<and> blastable g sel n} \<and>
           (distinct ex \<longrightarrow> distinct ex')"
proof (induction bombs arbitrary: ex)
  case Nil
  then show ?case by simp
next
  case (Cons b bombs)
  from explodeAdj_total [OF assms, of sel "neighbors b" ex]
  obtain ex1 where 1: "explodeAdj g sel (neighbors b) ex = Some ex1"
    and s1: "set ex1 = set ex \<union> {n \<in> set (neighbors b). blastable g sel n}"
    and d1: "distinct ex \<longrightarrow> distinct ex1" by blast
  from Cons.IH [of ex1] obtain ex2 where 2: "explodeBombs g sel bombs ex1 = Some ex2"
    and s2: "set ex2 = set ex1 \<union> {n. \<exists>b \<in> set bombs. n \<in> set (neighbors b) \<and> blastable g sel n}"
    and d2: "distinct ex1 \<longrightarrow> distinct ex2" by blast
  have "explodeBombs g sel (b # bombs) ex = Some ex2" by (simp add: 1 2)
  moreover have "set ex2 = set ex \<union> {n. \<exists>b' \<in> set (b # bombs). n \<in> set (neighbors b') \<and> blastable g sel n}"
    unfolding s2 s1 by auto
  ultimately show ?case using d1 d2 by blast
qed

section \<open>Committing a valid word\<close>

lemma bombTiles_filter:
  "map fst (filter (\<lambda>pt. P (snd pt)) (zip xs (map f xs))) = filter (\<lambda>p. P (f p)) xs"
  by (induction xs) auto

lemma remdups_le_one:
  "length (remdups xs) \<le> 1 \<longleftrightarrow> (\<forall>x \<in> set xs. \<forall>y \<in> set xs. x = y)"
proof -
  have "length (remdups xs) = card (set xs)" by (simp add: length_remdups_card_conv)
  then show ?thesis
    using card_le_Suc0_iff_eq [of "set xs"] by simp
qed

lemma baseWordScore_table:
  "baseWordScore len =
     (if len = 3 then 10 else if len = 4 then 20 else if len = 5 then 40
      else if len = 6 then 80 else if len = 7 then 150 else if len = 8 then 300
      else if len = 9 then 500 else 1000)"
  by (simp add: baseWordScore_def orElse_def SCORES_def)

lemma totalScore_formula:
  "totalScore len tiles ex =
     baseWordScore len *
       (if \<exists>t \<in> set tiles. color t = ''GOLD'' then 3
        else if (\<exists>t \<in> set tiles. color t \<noteq> ''GOLD'' \<and> color t \<noteq> ''RAINBOW'') \<and>
                (\<forall>t \<in> set tiles. \<forall>u \<in> set tiles.
                    color t \<noteq> ''GOLD'' \<and> color t \<noteq> ''RAINBOW'' \<and>
                    color u \<noteq> ''GOLD'' \<and> color u \<noteq> ''RAINBOW'' \<longrightarrow> color t = color u)
             then 2 else 1)
     + 50 * int (length ex)"
proof -
  have wild: "hasWild tiles \<longleftrightarrow> (\<exists>t \<in> set tiles. color t = ''GOLD'')"
    by (simp add: hasWild_def WILD_COLOR_def list_ex_iff)
  have some: "length (colorsInWord tiles) > 0
                \<longleftrightarrow> (\<exists>t \<in> set tiles. color t \<noteq> ''GOLD'' \<and> color t \<noteq> ''RAINBOW'')"
    by (auto simp: colorsInWord_def WILD_COLOR_def filter_empty_conv)
  have one: "length (remdups (colorsInWord tiles)) \<le> 1
                \<longleftrightarrow> (\<forall>t \<in> set tiles. \<forall>u \<in> set tiles.
                    color t \<noteq> ''GOLD'' \<and> color t \<noteq> ''RAINBOW'' \<and>
                    color u \<noteq> ''GOLD'' \<and> color u \<noteq> ''RAINBOW'' \<longrightarrow> color t = color u)"
    unfolding remdups_le_one by (auto simp: colorsInWord_def WILD_COLOR_def)
  show ?thesis
    unfolding totalScore_def Let_def isColorMatch_def wild some one by auto
qed

lemma handleTouchEnd_valid:
  assumes "\<not> animating st" and "\<not> isLoading st" and "screen st = GAME" and "selection st \<noteq> []"
    and wf: "wf_grid (grid st)" and inb: "\<forall>p \<in> set (selection st). inBounds 6 6 p"
    and tiles: "tiles = map (\<lambda>p. the (cell (grid st) p)) (selection st)"
    and word: "word = concat (map letter tiles)"
    and valid: "length word \<ge> 3" "word \<in> dictionary st"
  shows "\<exists>ex. explodeBombs (grid st) (selection st)
                 (filter (\<lambda>p. isBomb (the (cell (grid st) p))) (selection st)) [] = Some ex \<and>
              distinct ex \<and>
              set ex = {n. \<exists>b \<in> set (selection st). isBomb (the (cell (grid st) b)) \<and>
                            n \<in> set (neighbors b) \<and> blastable (grid st) (selection st) n} \<and>
              handleTouchEnd st =
                Some (st\<lparr>animating := True,
                        grid := fold (setStatus EXPLODED) ex
                                  (fold (setStatus MATCHED) (selection st) (grid st)),
                        specialSpawnQueue := specialSpawnQueue st
                           @ snd (snd (streakUpdate (difficulty st) (length word)
                                   (streakShort (gameState st)) (streakLong (gameState st)))),
                        gameState := (gameState st)
                          \<lparr>score := score (gameState st) + totalScore (length word) tiles ex,
                           wordCount := wordCount (gameState st) + 1,
                           bestWord := (if length word > length (bestWord (gameState st)) then word
                                        else bestWord (gameState st)),
                           lastScoreAdded := Some (totalScore (length word) tiles ex),
                           timeLeft := timeLeft (gameState st)
                              + timeAdded (mode st) (level (gameState st)) (length word) tiles,
                           streakShort := fst (streakUpdate (difficulty st) (length word)
                                   (streakShort (gameState st)) (streakLong (gameState st))),
                           streakLong := fst (snd (streakUpdate (difficulty st) (length word)
                                   (streakShort (gameState st)) (streakLong (gameState st))))\<rparr>\<rparr>)"
proof -
  let ?g = "grid st" and ?sel = "selection st"
  have cells: "\<forall>p \<in> set ?sel. \<exists>tile. cell ?g p = Some tile"
    using wf inb wf_grid_cell by blast
  then have st: "selectionTiles ?g ?sel = Some tiles"
    unfolding tiles by (rule selectionTiles_Some)
  then have sw: "selectionWord ?g ?sel = Some word"
    by (simp add: selectionWord_def word)
  have bombs: "map fst (filter (\<lambda>pt. isBomb (snd pt)) (zip ?sel tiles))
                 = filter (\<lambda>p. isBomb (the (cell ?g p))) ?sel"
    unfolding tiles by (rule bombTiles_filter)
  from explodeBombs_total [OF wf, of ?sel "filter (\<lambda>p. isBomb (the (cell ?g p))) ?sel" "[]"]
  obtain ex where ex: "explodeBombs ?g ?sel (filter (\<lambda>p. isBomb (the (cell ?g p))) ?sel) [] = Some ex"
    and exset: "set ex = {n. \<exists>b \<in> set (filter (\<lambda>p. isBomb (the (cell ?g p))) ?sel).
                     n \<in> set (neighbors b) \<and> blastable ?g ?sel n}"
    and dist: "distinct ex" by auto
  have "handleTouchEnd st = handleValidWord st word"
    using assms(1-4) valid by (simp add: handleTouchEnd_def sw MIN_WORD_LENGTH_def)
  also have "\<dots> = Some (st\<lparr>animating := True,
                        grid := fold (setStatus EXPLODED) ex
                                  (fold (setStatus MATCHED) (selection st) (grid st)),
                        specialSpawnQueue := specialSpawnQueue st
                           @ snd (snd (streakUpdate (difficulty st) (length word)
                                   (streakShort (gameState st)) (streakLong (gameState st)))),
                        gameState := (gameState st)
                          \<lparr>score := score (gameState st) + totalScore (length word) tiles ex,
                           wordCount := wordCount (gameState st) + 1,
                           bestWord := (if length word > length (bestWord (gameState st)) then word
                                        else bestWord (gameState st)),
                           lastScoreAdded := Some (totalScore (length word) tiles ex),
                           timeLeft := timeLeft (gameState st)
                              + timeAdded (mode st) (level (gameState st)) (length word) tiles,
                           streakShort := fst (streakUpdate (difficulty st) (length word)
                                   (streakShort (gameState st)) (streakLong (gameState st))),
                           streakLong := fst (snd (streakUpdate (difficulty st) (length word)
                                   (streakShort (gameState st)) (streakLong (gameState st))))\<rparr>\<rparr>)"
    by (simp add: handleValidWord_def st bombs ex Let_def)
  finally have h: "handleTouchEnd st = Some (st\<lparr>animating := True,
                        grid := fold (setStatus EXPLODED) ex
                                  (fold (setStatus MATCHED) (selection st) (grid st)),
                        specialSpawnQueue := specialSpawnQueue st
                           @ snd (snd (streakUpdate (difficulty st) (length word)
                                   (streakShort (gameState st)) (streakLong (gameState st)))),
                        gameState := (gameState st)
                          \<lparr>score := score (gameState st) + totalScore (length word) tiles ex,
                           wordCount := wordCount (gameState st) + 1,
                           bestWord := (if length word > length (bestWord (gameState st)) then word
                                        else bestWord (gameState st)),
                           lastScoreAdded := Some (totalScore (length word) tiles ex),
                           timeLeft := timeLeft (gameState st)
                              + timeAdded (mode st) (level (gameState st)) (length word) tiles,
                           streakShort := fst (streakUpdate (difficulty st) (length word)
                                   (streakShort (gameState st)) (streakLong (gameState st))),
                           streakLong := fst (snd (streakUpdate (difficulty st) (length word)
                                   (streakShort (gameState st)) (streakLong (gameState st))))\<rparr>\<rparr>)" .
  have "set ex = {n. \<exists>b \<in> set ?sel. isBomb (the (cell ?g b)) \<and>
                            n \<in> set (neighbors b) \<and> blastable ?g ?sel n}"
    unfolding exset by auto
  with ex dist h show ?thesis by blast
qed

section \<open>The sample board evaluated\<close>

lemma xRow_simp: "xRow = [plainTile ''X'' ''PINK'', plainTile ''X'' ''PINK'', plainTile ''X'' ''PINK'',
   plainTile ''X'' ''PINK'', plainTile ''X'' ''PINK'', plainTile ''X'' ''PINK'']"
  by (simp add: xRow_def eval_nat_numeral)

lemma wf_sampleGrid: "wf_grid sampleGrid"
  by (simp add: wf_grid_def sampleGrid_def xRow_simp)

lemma sample_cells:
  "cell sampleGrid (0, 0) = Some (plainTile ''C'' ''BLUE'')"
  "cell sampleGrid (0, 1) = Some (plainTile ''A'' ''BLUE'')"
  "cell sampleGrid (0, 2) = Some ((plainTile ''T'' ''RAINBOW'')\<lparr>isBomb := True\<rparr>)"
  "cell sampleGrid (0, 3) = Some (plainTile ''X'' ''PINK'')"
  "cell sampleGrid (1, 1) = Some (plainTile ''X'' ''PINK'')"
  "cell sampleGrid (1, 2) = Some (plainTile ''X'' ''PINK'')"
  "cell sampleGrid (1, 3) = Some (plainTile ''X'' ''PINK'')"
  by (simp_all add: cell_def sampleGrid_def xRow_simp)

lemma sample_explosion:
  "explodeBombs sampleGrid [(0, 0), (0, 1), (0, 2)] [(0, 2)] []
     = Some [(0, 3), (1, 1), (1, 2), (1, 3)]"
  apply (simp add: neighbors_def inBounds_def GRID_SIZE_def sample_cells plainTile_def)
  done

lemma sample_tiles:
  "map (\<lambda>p. the (cell (grid sampleApp) p)) (selection sampleApp)
     = [plainTile ''C'' ''BLUE'', plainTile ''A'' ''BLUE'', (plainTile ''T'' ''RAINBOW'')\<lparr>isBomb := True\<rparr>]"
  by (simp add: sampleApp_def sample_cells)

lemma sample_word:
  "concat (map letter (map (\<lambda>p. the (cell (grid sampleApp) p)) (selection sampleApp))) = ''CAT''"
  by (simp add: sample_tiles plainTile_def)

lemma lettered_sampleGrid: "lettered sampleGrid"
  by (simp add: lettered_def sampleGrid_def xRow_simp plainTile_def)

section \<open>Live status of the selection\<close>

text \<open>An accepted touch or drag runs \<open>evaluateSelection\<close> on a non-empty path of
  unblocked tiles.\<close>

lemma handleTouchStart_evaluates:
  assumes "\<not> animating st" and "\<not> isLoading st" and "screen st = GAME"
    and "cell (grid st) p = Some tile" and "\<not> isBlocked tile"
  shows "handleTouchStart st p = evaluateSelection st [p]"
  using assms by (simp add: handleTouchStart_def)

lemma dragOver_evaluates:
  assumes "trie st = Some t"
    and "\<forall>q \<in> set (selection st). \<exists>tile. cell (grid st) q = Some tile \<and> \<not> isBlocked tile"
    and "dragOver st (Some p) = Some st'" and "selection st' \<noteq> selection st"
  shows "selection st' \<noteq> [] \<and>
         (\<forall>q \<in> set (selection st'). \<exists>tile. cell (grid st) q = Some tile \<and> \<not> isBlocked tile) \<and>
         evaluateSelection st (selection st') = Some st'"
proof -
  from assms(3) obtain tile where tile: "cell (grid st) p = Some tile"
    by (auto simp: dragOver_def split: option.splits)
  from assms(3,4) tile have nb: "\<not> isBlocked tile"
    by (auto simp: dragOver_def)
  have sel: "\<And>sel s. evaluateSelection st sel = Some s \<Longrightarrow> selection s = sel"
    using assms(1) by (auto simp: evaluateSelection_def split: option.splits)
  show ?thesis
  proof (cases "length (selection st) > 1 \<and> selection st ! (length (selection st) - 2) = p")
    case True
    with assms(3) tile nb have ev: "evaluateSelection st (butlast (selection st)) = Some st'"
      by (simp add: dragOver_def)
    from sel [OF ev] have s': "selection st' = butlast (selection st)" .
    from True have "butlast (selection st) \<noteq> []"
      by (cases "selection st" rule: rev_cases) auto
    moreover have "set (butlast (selection st)) \<subseteq> set (selection st)"
      by (meson in_set_butlastD subsetI)
    ultimately show ?thesis using ev s' assms(2) by auto
  next
    case False
    show ?thesis
    proof (cases "p \<notin> set (selection st) \<and> isAdjacent (last (selection st)) p")
      case True
      with False assms(3) tile nb have ev: "evaluateSelection st (selection st @ [p]) = Some st'"
        by (auto simp: dragOver_def)
      from sel [OF ev] have s': "selection st' = selection st @ [p]" .
      with ev assms(2) tile nb show ?thesis by auto
    next
      case stay: False
      with False assms(3) tile nb have "st' = st" by (auto simp: dragOver_def)
      with assms(4) show ?thesis by simp
    qed
  qed
qed

text \<open>
  C5: when the trie is loaded and \<open>evaluateSelection\<close> is given a non-empty path over
  tiles that are not blocked (on a board whose unblocked tiles carry a letter), it
  completes, stores the path as the selection, and gives every path tile the status
  VALID exactly when the lookup of the word is 2 (ExactWord) and the word has at least 3
  letters, SELECTED whenever the lookup is not 0 and the VALID condition fails, and
  REJECT exactly when the lookup is 0 (NoMatch).
\<close>

theorem evaluateSelection_status:
  assumes "trie st = Some t" and "sel \<noteq> []" and "lettered (grid st)"
    and "\<forall>p \<in> set sel. \<exists>tile. cell (grid st) p = Some tile \<and> \<not> isBlocked tile"
  shows "\<exists>st' word. evaluateSelection st sel = Some st' \<and>
           selectionWord (grid st) sel = Some word \<and> word \<noteq> [] \<and>
           selection st' = sel \<and>
           (\<forall>p \<in> set sel. \<exists>tile. cell (grid st') p = Some tile \<and>
              (status tile = VALID \<longleftrightarrow> trie_search t word = 2 \<and> length word \<ge> 3) \<and>
              (trie_search t word \<noteq> 0 \<and> \<not> (trie_search t word = 2 \<and> length word \<ge> 3)
                 \<longrightarrow> status tile = SELECTED) \<and>
              (status tile = REJECT \<longleftrightarrow> trie_search t word = 0))"
proof -
  let ?g = "grid st"
  let ?tiles = "map (\<lambda>p. the (cell ?g p)) sel"
  let ?word = "concat (map letter ?tiles)"
  have tiles: "selectionTiles ?g sel = Some ?tiles"
    using assms(4) by (intro selectionTiles_Some) blast
  then have word: "selectionWord ?g sel = Some ?word"
    by (simp add: selectionWord_def)
  from assms(2) obtain p0 where p0: "p0 \<in> set sel" by (cases sel) auto
  with assms(4) obtain t0 where t0: "cell ?g p0 = Some t0" "\<not> isBlocked t0" by blast
  with assms(3) have "letter t0 \<noteq> []" using lettered_cell by blast
  moreover have "letter t0 \<in> set (map letter ?tiles)"
    using p0 t0 by force
  ultimately have ne: "?word \<noteq> []" by auto
  let ?s = "selectionStatus t ?word"
  let ?st' = "st\<lparr>selection := sel, grid := updateTileStatus ?g sel ?s\<rparr>"
  have ev: "evaluateSelection st sel = Some ?st'"
    by (simp add: evaluateSelection_def assms(1) word)
  have stat: "(?s = VALID \<longleftrightarrow> trie_search t ?word = 2 \<and> length ?word \<ge> 3) \<and>
              (trie_search t ?word \<noteq> 0 \<and> \<not> (trie_search t ?word = 2 \<and> length ?word \<ge> 3)
                 \<longrightarrow> ?s = SELECTED) \<and>
              (?s = REJECT \<longleftrightarrow> trie_search t ?word = 0)"
    using ne by (simp add: selectionStatus_def MIN_WORD_LENGTH_def)
  have cells: "\<forall>p \<in> set sel. \<exists>tile. cell (grid ?st') p = Some tile \<and> status tile = ?s"
  proof
    fix p assume p: "p \<in> set sel"
    with assms(4) obtain tile where "cell ?g p = Some tile" by blast
    with p show "\<exists>tile. cell (grid ?st') p = Some tile \<and> status tile = ?s"
      by (simp add: cell_updateTileStatus)
  qed
  show ?thesis
  proof (intro exI conjI)
    show "evaluateSelection st sel = Some ?st'" by (rule ev)
    show "selectionWord ?g sel = Some ?word" by (rule word)
    show "?word \<noteq> []" by (rule ne)
    show "selection ?st' = sel" by simp
    show "\<forall>p \<in> set sel. \<exists>tile. cell (grid ?st') p = Some tile \<and>
              (status tile = VALID \<longleftrightarrow> trie_search t ?word = 2 \<and> length ?word \<ge> 3) \<and>
              (trie_search t ?word \<noteq> 0 \<and> \<not> (trie_search t ?word = 2 \<and> length ?word \<ge> 3)
                 \<longrightarrow> status tile = SELECTED) \<and>
              (status tile = REJECT \<longleftrightarrow> trie_search t ?word = 0)"
      using cells stat by metis
  qed
qed

text \<open>On the sample board: the path C-A-T is VALID, the path C-A is SELECTED (a proper
  prefix), and the path C-X is REJECT.\<close>

theorem evaluateSelection_status_witness:
  "map_option (\<lambda>s. map (\<lambda>p. map_option status (cell (grid s) p)) [(0, 0), (0, 1), (0, 2)])
     (evaluateSelection sampleApp [(0, 0), (0, 1), (0, 2)])
     = Some [Some VALID, Some VALID, Some VALID] \<and>
   map_option (\<lambda>s. map (\<lambda>p. map_option status (cell (grid s) p)) [(0, 0), (0, 1)])
     (evaluateSelection sampleApp [(0, 0), (0, 1)])
     = Some [Some SELECTED, Some SELECTED] \<and>
   map_option (\<lambda>s. map (\<lambda>p. map_option status (cell (grid s) p)) [(0, 0), (0, 3)])
     (evaluateSelection sampleApp [(0, 0), (0, 3)])
     = Some [Some REJECT, Some REJECT]"
proof -
  have t: "trie sampleApp = Some (buildTrie [''CAT''])" by (simp add: sampleApp_def)
  have l: "lettered (grid sampleApp)" by (simp add: sampleApp_def lettered_sampleGrid)
  have c3: "\<forall>p \<in> set [(0, 0), (0, 1), (0, 2)].
              \<exists>tile. cell (grid sampleApp) p = Some tile \<and> \<not> isBlocked tile"
    and c2: "\<forall>p \<in> set [(0, 0), (0, 1)].
              \<exists>tile. cell (grid sampleApp) p = Some tile \<and> \<not> isBlocked tile"
    and cx: "\<forall>p \<in> set [(0, 0), (0, 3)].
              \<exists>tile. cell (grid sampleApp) p = Some tile \<and> \<not> isBlocked tile"
    by (simp_all add: sampleApp_def sample_cells plainTile_def)
  have w3: "selectionWord (grid sampleApp) [(0, 0), (0, 1), (0, 2)] = Some ''CAT''"
    and w2: "selectionWord (grid sampleApp) [(0, 0), (0, 1)] = Some ''CA''"
    and wx: "selectionWord (grid sampleApp) [(0, 0), (0, 3)] = Some ''CX''"
    by (simp_all add: selectionWord_def selectionTiles_def sampleApp_def sample_cells plainTile_def)
  have s3: "trie_search (buildTrie [''CAT'']) ''CAT'' = 2"
    and s2: "trie_search (buildTrie [''CAT'']) ''CA'' = 1"
    and sx: "trie_search (buildTrie [''CAT'']) ''CX'' = 0"
    by (simp_all add: trie_search_build)
  from evaluateSelection_status [OF t _ l c3] w3 s3
  have "map_option (\<lambda>s. map (\<lambda>p. map_option status (cell (grid s) p)) [(0, 0), (0, 1), (0, 2)])
     (evaluateSelection sampleApp [(0, 0), (0, 1), (0, 2)])
     = Some [Some VALID, Some VALID, Some VALID]"
    by fastforce
  moreover from evaluateSelection_status [OF t _ l c2] w2 s2
  have "map_option (\<lambda>s. map (\<lambda>p. map_option status (cell (grid s) p)) [(0, 0), (0, 1)])
     (evaluateSelection sampleApp [(0, 0), (0, 1)])
     = Some [Some SELECTED, Some SELECTED]"
    by fastforce
  moreover from evaluateSelection_status [OF t _ l cx] wx sx
  have "map_option (\<lambda>s. map (\<lambda>p. map_option status (cell (grid s) p)) [(0, 0), (0, 3)])
     (evaluateSelection sampleApp [(0, 0), (0, 3)])
     = Some [Some REJECT, Some REJECT]"
    by fastforce
  ultimately show ?thesis by blast
qed

section \<open>Score of a committed word\<close>

text \<open>
  C1: releasing a selection whose word has at least 3 letters and is in the dictionary
  adds to the score \<open>base(length) * m + 50 * E\<close>: \<open>base\<close> is the table 3 to 10, 4 to 20,
  5 to 40, 6 to 80, 7 to 150, 8 to 300, 9 to 500, and 1000 from 10 on; \<open>m\<close> is 3 when a
  path tile has the colour GOLD, else 2 when at least one path tile has a colour other
  than GOLD and RAINBOW and all such tiles have the same colour, else 1; \<open>E\<close> is the
  number of exploded tiles, which are pairwise distinct and are exactly the tiles whose
  status turns to EXPLODED.
\<close>

theorem handleTouchEnd_score:
  assumes "\<not> animating st" and "\<not> isLoading st" and "screen st = GAME" and "selection st \<noteq> []"
    and "wf_grid (grid st)" and "\<forall>p \<in> set (selection st). inBounds 6 6 p"
    and "tiles = map (\<lambda>p. the (cell (grid st) p)) (selection st)"
    and "word = concat (map letter tiles)"
    and "length word \<ge> 3" and "word \<in> dictionary st"
  shows "\<exists>st' ex.
           handleTouchEnd st = Some st' \<and>
           explodeBombs (grid st) (selection st)
             (filter (\<lambda>p. isBomb (the (cell (grid st) p))) (selection st)) [] = Some ex \<and>
           distinct ex \<and>
           (\<forall>p. p \<in> set ex \<longleftrightarrow>
                (\<exists>t. cell (grid st) p = Some t \<and> status t \<noteq> EXPLODED) \<and>
                (\<exists>t. cell (grid st') p = Some t \<and> status t = EXPLODED)) \<and>
           score (gameState st') = score (gameState st)
             + (if length word = 3 then 10 else if length word = 4 then 20
                else if length word = 5 then 40 else if length word = 6 then 80
                else if length word = 7 then 150 else if length word = 8 then 300
                else if length word = 9 then 500 else 1000)
               * (if \<exists>t \<in> set tiles. color t = ''GOLD'' then 3
                  else if (\<exists>t \<in> set tiles. color t \<noteq> ''GOLD'' \<and> color t \<noteq> ''RAINBOW'') \<and>
                          (\<forall>t \<in> set tiles. \<forall>u \<in> set tiles.
                              color t \<noteq> ''GOLD'' \<and> color t \<noteq> ''RAINBOW'' \<and>
                              color u \<noteq> ''GOLD'' \<and> color u \<noteq> ''RAINBOW'' \<longrightarrow> color t = color u)
                       then 2 else 1)
             + 50 * int (length ex)"
proof -
  from handleTouchEnd_valid [OF assms]
  obtain ex st' where ex: "explodeBombs (grid st) (selection st)
                 (filter (\<lambda>p. isBomb (the (cell (grid st) p))) (selection st)) [] = Some ex"
    and dist: "distinct ex"
    and exset: "set ex = {n. \<exists>b \<in> set (selection st). isBomb (the (cell (grid st) b)) \<and>
                            n \<in> set (neighbors b) \<and> blastable (grid st) (selection st) n}"
    and h: "handleTouchEnd st = Some st'"
    and g': "grid st' = fold (setStatus EXPLODED) ex
                                  (fold (setStatus MATCHED) (selection st) (grid st))"
    and sc: "score (gameState st') = score (gameState st) + totalScore (length word) tiles ex"
    by force
  have marks: "\<forall>p. p \<in> set ex \<longleftrightarrow>
                (\<exists>t. cell (grid st) p = Some t \<and> status t \<noteq> EXPLODED) \<and>
                (\<exists>t. cell (grid st') p = Some t \<and> status t = EXPLODED)"
  proof
    fix p
    show "p \<in> set ex \<longleftrightarrow>
                (\<exists>t. cell (grid st) p = Some t \<and> status t \<noteq> EXPLODED) \<and>
                (\<exists>t. cell (grid st') p = Some t \<and> status t = EXPLODED)"
    proof (cases "p \<in> set ex")
      case True
      with exset have "blastable (grid st) (selection st) p" by blast
      then obtain t where "cell (grid st) p = Some t" "status t \<noteq> EXPLODED" "p \<notin> set (selection st)"
        by (auto simp: blastable_def)
      with True show ?thesis
        by (simp add: g' cell_fold_setStatus)
    next
      case False
      then show ?thesis
        by (cases "cell (grid st) p") (auto simp: g' cell_fold_setStatus)
    qed
  qed
  from sc have "score (gameState st') = score (gameState st)
             + (if length word = 3 then 10 else if length word = 4 then 20
                else if length word = 5 then 40 else if length word = 6 then 80
                else if length word = 7 then 150 else if length word = 8 then 300
                else if length word = 9 then 500 else 1000)
               * (if \<exists>t \<in> set tiles. color t = ''GOLD'' then 3
                  else if (\<exists>t \<in> set tiles. color t \<noteq> ''GOLD'' \<and> color t \<noteq> ''RAINBOW'') \<and>
                          (\<forall>t \<in> set tiles. \<forall>u \<in> set tiles.
                              color t \<noteq> ''GOLD'' \<and> color t \<noteq> ''RAINBOW'' \<and>
                              color u \<noteq> ''GOLD'' \<and> color u \<noteq> ''RAINBOW'' \<longrightarrow> color t = color u)
                       then 2 else 1)
             + 50 * int (length ex)"
    by (simp only: totalScore_formula baseWordScore_table add.assoc)
  with h ex dist marks show ?thesis by blast
qed

text \<open>On the sample board CAT scores \<open>10 * 2 + 50 * 4 = 220\<close>: two blue tiles and a
  bomb that destroys four neighbours.\<close>

theorem handleTouchEnd_score_witness:
  "map_option (\<lambda>s. score (gameState s)) (handleTouchEnd sampleApp) = Some 220"
proof -
  have gates: "\<not> animating sampleApp" "\<not> isLoading sampleApp" "screen sampleApp = GAME"
      "selection sampleApp \<noteq> []" "wf_grid (grid sampleApp)"
      "\<forall>p \<in> set (selection sampleApp). inBounds 6 6 p"
    by (simp_all add: sampleApp_def wf_sampleGrid inBounds_def)
  have dict: "3 \<le> length ''CAT''" "''CAT'' \<in> dictionary sampleApp"
    by (simp_all add: sampleApp_def)
  from handleTouchEnd_score [OF gates refl sample_word [symmetric] dict]
  obtain st' ex where h: "handleTouchEnd sampleApp = Some st'"
    and ex: "explodeBombs (grid sampleApp) (selection sampleApp)
             (filter (\<lambda>p. isBomb (the (cell (grid sampleApp) p))) (selection sampleApp)) [] = Some ex"
    and sc: "score (gameState st') = score (gameState sampleApp)
             + (if length ''CAT'' = 3 then 10 else if length ''CAT'' = 4 then 20
                else if length ''CAT'' = 5 then 40 else if length ''CAT'' = 6 then 80
                else if length ''CAT'' = 7 then 150 else if length ''CAT'' = 8 then 300
                else if length ''CAT'' = 9 then 500 else 1000)
               * (if \<exists>t \<in> set (map (\<lambda>p. the (cell (grid sampleApp) p)) (selection sampleApp)). color t = ''GOLD'' then 3
                  else if (\<exists>t \<in> set (map (\<lambda>p. the (cell (grid sampleApp) p)) (selection sampleApp)). color t \<noteq> ''GOLD'' \<and> color t \<noteq> ''RAINBOW'') \<and>
                          (\<forall>t \<in> set (map (\<lambda>p. the (cell (grid sampleApp) p)) (selection sampleApp)). \<forall>u \<in> set (map (\<lambda>p. the (cell (grid sampleApp) p)) (selection sampleApp)).
                              color t \<noteq> ''GOLD'' \<and> color t \<noteq> ''RAINBOW'' \<and>
                              color u \<noteq> ''GOLD'' \<and> color u \<noteq> ''RAINBOW'' \<longrightarrow> color t = color u)
                       then 2 else 1)
             + 50 * int (length ex)"
    by blast
  have "explodeBombs sampleGrid [(0, 0), (0, 1), (0, 2)] [(0, 2)] [] = Some ex"
    using ex by (simp add: sampleApp_def sample_cells plainTile_def del: explodeBombs.simps)
  then have "ex = [(0, 3), (1, 1), (1, 2), (1, 3)]"
    by (simp only: sample_explosion option.inject)
  with sc have "score (gameState st') = 220"
    by (simp add: sample_tiles plainTile_def) (simp add: sampleApp_def initialGameState_def)
  with h show ?thesis by simp
qed

section \<open>Streaks and the spawn queue\<close>

text \<open>
  C6: on a valid word commit, if the word is short-penalty for the difficulty (never on
  EASY, length 3 on NORMAL, length 3 or 4 on HARD) then \<open>streakShort\<close> is incremented,
  \<open>streakLong\<close> is reset to 0, and one BLOCKED is pushed on the spawn queue exactly when
  the incremented \<open>streakShort\<close> is at least 2; else if the word has at least 5 letters
  then \<open>streakLong\<close> is incremented, \<open>streakShort\<close> is reset, and one BOMB is pushed
  exactly when the incremented \<open>streakLong\<close> is at least 2; otherwise both counters are
  reset and nothing is pushed. In particular, on NORMAL a 3-letter word at streak 0
  pushes nothing and leaves the streak at 1, and the next 3-letter word, at streak 1,
  pushes exactly one BLOCKED.
\<close>

theorem handleTouchEnd_streaks:
  assumes "\<not> animating st" and "\<not> isLoading st" and "screen st = GAME" and "selection st \<noteq> []"
    and "wf_grid (grid st)" and "\<forall>p \<in> set (selection st). inBounds 6 6 p"
    and "tiles = map (\<lambda>p. the (cell (grid st) p)) (selection st)"
    and "word = concat (map letter tiles)"
    and "length word \<ge> 3" and "word \<in> dictionary st"
  shows "\<exists>st'. handleTouchEnd st = Some st' \<and>
           (if (difficulty st = NORMAL \<and> length word = 3) \<or>
               (difficulty st = HARD \<and> (length word = 3 \<or> length word = 4))
            then streakShort (gameState st') = streakShort (gameState st) + 1 \<and>
                 streakLong (gameState st') = 0 \<and>
                 specialSpawnQueue st' = specialSpawnQueue st
                    @ (if streakShort (gameState st) + 1 \<ge> 2 then [BLOCKED] else [])
            else if length word \<ge> 5
            then streakLong (gameState st') = streakLong (gameState st) + 1 \<and>
                 streakShort (gameState st') = 0 \<and>
                 specialSpawnQueue st' = specialSpawnQueue st
                    @ (if streakLong (gameState st) + 1 \<ge> 2 then [BOMB] else [])
            else streakShort (gameState st') = 0 \<and> streakLong (gameState st') = 0 \<and>
                 specialSpawnQueue st' = specialSpawnQueue st) \<and>
           (difficulty st = NORMAL \<and> length word = 3 \<and> streakShort (gameState st) = 0
              \<longrightarrow> specialSpawnQueue st' = specialSpawnQueue st \<and> streakShort (gameState st') = 1) \<and>
           (difficulty st = NORMAL \<and> length word = 3 \<and> streakShort (gameState st) = 1
              \<longrightarrow> specialSpawnQueue st' = specialSpawnQueue st @ [BLOCKED]
                  \<and> streakShort (gameState st') = 2)"
proof -
  from handleTouchEnd_valid [OF assms]
  obtain st' where h: "handleTouchEnd st = Some st'"
    and q: "specialSpawnQueue st' = specialSpawnQueue st
              @ snd (snd (streakUpdate (difficulty st) (length word)
                     (streakShort (gameState st)) (streakLong (gameState st))))"
    and s: "streakShort (gameState st') = fst (streakUpdate (difficulty st) (length word)
                     (streakShort (gameState st)) (streakLong (gameState st)))"
    and l: "streakLong (gameState st') = fst (snd (streakUpdate (difficulty st) (length word)
                     (streakShort (gameState st)) (streakLong (gameState st))))"
    by force
  have short: "isShortPenalty (difficulty st) (length word)
                 \<longleftrightarrow> (difficulty st = NORMAL \<and> length word = 3) \<or>
                     (difficulty st = HARD \<and> (length word = 3 \<or> length word = 4))"
    by (cases "difficulty st") (simp_all add: isShortPenalty_def)
  show ?thesis
    apply (rule exI [of _ st'])
    apply (simp only: h q s l streakUpdate_def short)
    apply auto
    done
qed

text \<open>On the sample board CAT is committed twice in a row on NORMAL: the queue is empty
  after the first commit and holds one BLOCKED after the second.\<close>

theorem handleTouchEnd_streaks_witness:
  "map_option specialSpawnQueue (handleTouchEnd sampleApp) = Some [] \<and>
   map_option (\<lambda>s. streakShort (gameState s)) (handleTouchEnd sampleApp) = Some 1 \<and>
   map_option specialSpawnQueue
     (handleTouchEnd (sampleApp\<lparr>gameState := gameState (the (handleTouchEnd sampleApp))\<rparr>))
       = Some [BLOCKED]"
proof -
  have gates: "\<not> animating sampleApp" "\<not> isLoading sampleApp" "screen sampleApp = GAME"
      "selection sampleApp \<noteq> []" "wf_grid (grid sampleApp)"
      "\<forall>p \<in> set (selection sampleApp). inBounds 6 6 p"
    by (simp_all add: sampleApp_def wf_sampleGrid inBounds_def)
  have dict: "3 \<le> length ''CAT''" "''CAT'' \<in> dictionary sampleApp"
    by (simp_all add: sampleApp_def)
  have start: "difficulty sampleApp = NORMAL" "streakShort (gameState sampleApp) = 0"
      "specialSpawnQueue sampleApp = []"
    by (simp_all add: sampleApp_def initialGameState_def)
  from handleTouchEnd_streaks [OF gates refl sample_word [symmetric] dict] start
  obtain st1 where h1: "handleTouchEnd sampleApp = Some st1"
    and q1: "specialSpawnQueue st1 = []" and s1: "streakShort (gameState st1) = 1"
    by auto
  let ?again = "sampleApp\<lparr>gameState := gameState st1\<rparr>"
  have gates2: "\<not> animating ?again" "\<not> isLoading ?again" "screen ?again = GAME"
      "selection ?again \<noteq> []" "wf_grid (grid ?again)"
      "\<forall>p \<in> set (selection ?again). inBounds 6 6 p"
    using gates by simp_all
  have word2: "''CAT'' = concat (map letter (map (\<lambda>p. the (cell (grid ?again) p)) (selection ?again)))"
    using sample_word by simp
  have dict2: "''CAT'' \<in> dictionary ?again" using dict by simp
  have start2: "difficulty ?again = NORMAL" "streakShort (gameState ?again) = 1"
      "specialSpawnQueue ?again = []"
    using start s1 by simp_all
  from handleTouchEnd_streaks [OF gates2 refl word2 dict(1) dict2] start2
  obtain st2 where h2: "handleTouchEnd ?again = Some st2"
    and q2: "specialSpawnQueue st2 = [BLOCKED]"
    by auto
  from h1 q1 s1 h2 q2 show ?thesis by simp
qed

section \<open>Gravity and refill\<close>

lemma wf_grid_setCell:
  assumes "wf_grid g"
  shows "wf_grid (setCell g q t)"
proof -
  obtain r c where q: "q = (r, c)" by (cases q)
  from assms have len: "length g = 6" and rows: "\<forall>row \<in> set g. length row = 6"
    by (simp_all add: wf_grid_def list_all_iff)
  have "\<forall>row \<in> set (g[nat r := (g ! nat r)[nat c := t]]). length row = 6"
  proof
    fix row assume "row \<in> set (g[nat r := (g ! nat r)[nat c := t]])"
    then have "row \<in> insert ((g ! nat r)[nat c := t]) (set g)"
      using set_update_subset_insert by fastforce
    then show "length row = 6"
    proof
      assume row: "row = (g ! nat r)[nat c := t]"
      show ?thesis
      proof (cases "nat r < length g")
        case True
        then have "g ! nat r \<in> set g" by (rule nth_mem)
        with rows row show ?thesis by simp
      next
        case False
        then have "g[nat r := (g ! nat r)[nat c := t]] = g" by (simp add: list_update_beyond)
        with \<open>row \<in> set (g[nat r := (g ! nat r)[nat c := t]])\<close> rows show ?thesis by simp
      qed
    next
      assume "row \<in> set g"
      with rows show ?thesis by blast
    qed
  qed
  with len show ?thesis by (simp add: wf_grid_def list_all_iff q setCell_def)
qed

lemma cell_write_column:
  assumes "wf_grid ng" and "0 \<le> c" and "c < 6" and "\<forall>r \<in> set rs. 0 \<le> r \<and> r < 6"
  shows "wf_grid (fold (\<lambda>r g. setCell g (r, c) (f r)) rs ng) \<and>
         cell (fold (\<lambda>r g. setCell g (r, c) (f r)) rs ng) p
           = (if snd p = c \<and> fst p \<in> set rs then Some (f (fst p)) else cell ng p)"
  using assms(1,4)
proof (induction rs arbitrary: ng)
  case Nil
  then show ?case by simp
next
  case (Cons r rs)
  let ?g1 = "setCell ng (r, c) (f r)"
  have wf1: "wf_grid ?g1" using Cons.prems(1) by (rule wf_grid_setCell)
  have "inBounds 6 6 (r, c)" using Cons.prems(2) assms(2,3) by (simp add: inBounds_def)
  then have ex: "cell ng (r, c) \<noteq> None" using wf_grid_cell [OF Cons.prems(1)] by fastforce
  have IH: "wf_grid (fold (\<lambda>r g. setCell g (r, c) (f r)) rs ?g1) \<and>
         cell (fold (\<lambda>r g. setCell g (r, c) (f r)) rs ?g1) p
           = (if snd p = c \<and> fst p \<in> set rs then Some (f (fst p)) else cell ?g1 p)"
    using Cons.IH [OF wf1] Cons.prems(2) by simp
  show ?case
    using IH by (cases p) (auto simp: cell_setCell [OF ex])
qed

lemma column_cells:
  assumes "wf_grid g" and "c < 6"
  shows "column g c = map (\<lambda>r. the (cell g (int r, int c))) [0..<6]"
proof -
  from assms(1) have len: "length g = 6" and rows: "\<forall>row \<in> set g. length row = 6"
    by (simp_all add: wf_grid_def list_all_iff)
  have "column g c = map (\<lambda>i. g ! i ! c) [0..<length g]"
    unfolding column_def by (intro nth_equalityI) simp_all
  also have "\<dots> = map (\<lambda>r. the (cell g (int r, int c))) [0..<6]"
  proof (unfold len, rule map_cong [OF refl])
    fix r assume "r \<in> set [0..<6]"
    then have r: "r < 6" by simp
    then have "g ! r \<in> set g" using len by (intro nth_mem) simp
    with rows have "length (g ! r) = 6" by blast
    with r assms(2) len show "g ! r ! c = the (cell g (int r, int c))"
      by (simp add: cell_def)
  qed
  finally show ?thesis .
qed

lemma rows_upto: "[0..GRID_SIZE - 1] = map int [0..<6]"
  by (simp add: GRID_SIZE_def upto.simps upt_conv_Cons)

lemma generateTile_fresh:
  "isNew (generateTile lvl m new forced d) = new \<and> status (generateTile lvl m new forced d) = IDLE"
  by (simp add: generateTile_def blockedTile_def bombTile_def)

lemma getRandomLetter_length:
  assumes "0 \<le> u" and "u < 1"
  shows "length (getRandomLetter u) = 1"
proof -
  have len: "length LETTER_POOL = 98" by (simp add: LETTER_POOL_def)
  have lo: "0 \<le> \<lfloor>u * 98\<rfloor>" using assms(1) by simp
  have "u * 98 < 98" using assms(2) by simp
  then have hi: "\<lfloor>u * 98\<rfloor> < 98" by (simp add: floor_less_iff)
  from lo hi show ?thesis by (simp add: getRandomLetter_def len Let_def)
qed

lemma generateTile_lettered:
  assumes "0 \<le> draw_letter d" and "draw_letter d < 1"
  shows "isBlocked (generateTile lvl m new forced d)
           \<or> length (letter (generateTile lvl m new forced d)) = 1"
  using getRandomLetter_length [OF assms]
  by (simp add: generateTile_def blockedTile_def bombTile_def)

lemma generateTile_not_both:
  "\<not> (isBlocked (generateTile lvl m new forced d) \<and> isBomb (generateTile lvl m new forced d))"
  by (simp add: generateTile_def blockedTile_def bombTile_def)

lemma generateTile_freshTile: "freshTile rnd (generateTile lvl m True forced (rnd k))"
proof -
  have "letterDrawsInRange rnd \<Longrightarrow> isBlocked (generateTile lvl m True forced (rnd k))
          \<or> letter (generateTile lvl m True forced (rnd k)) \<noteq> []"
    using generateTile_lettered [of "rnd k" lvl m True forced]
    by (auto simp: letterDrawsInRange_def)
  then show ?thesis
    unfolding freshTile_def using generateTile_fresh [of lvl m True forced "rnd k"] by blast
qed

lemma newTiles_fresh:
  "length (fst (newTiles rnd lvl m n q k)) = n \<and>
   (\<forall>t \<in> set (fst (newTiles rnd lvl m n q k)). freshTile rnd t)"
  by (induction n arbitrary: q k) (auto simp: Let_def generateTile_freshTile)

lemma column_read:
  assumes "wf_grid prev" and "0 \<le> c" and "c < 6"
  shows "those (map (\<lambda>r. cell prev (r, c)) [0..GRID_SIZE - 1]) = Some (column prev (nat c))"
proof -
  have "\<forall>r \<in> set [0..GRID_SIZE - 1]. \<exists>tile. cell prev (r, c) = Some tile"
    using wf_grid_cell [OF assms(1)] assms(2,3) by (simp add: inBounds_def GRID_SIZE_def)
  then have "those (map (\<lambda>r. cell prev (r, c)) [0..GRID_SIZE - 1])
               = Some (map (\<lambda>r. the (cell prev (r, c))) [0..GRID_SIZE - 1])"
    by (rule those_map_Some)
  also have "map (\<lambda>r. the (cell prev (r, c))) [0..GRID_SIZE - 1] = column prev (nat c)"
    using assms(2,3) by (simp add: column_cells [OF assms(1)] rows_upto comp_def)
  finally show ?thesis .
qed

lemma gravityColumn_result:
  assumes prev: "wf_grid prev" and ng: "wf_grid ng" and c: "0 \<le> c" "c < 6"
  shows "\<exists>ng' q' k' new.
           gravityColumn rnd lvl m prev c (ng, q, k) = Some (ng', q', k') \<and>
           wf_grid ng' \<and>
           column ng' (nat c) = new @ compacted prev (nat c) \<and>
           (\<forall>t \<in> set new. freshTile rnd t) \<and>
           (\<forall>c' < 6. c' \<noteq> nat c \<longrightarrow> column ng' c' = column ng c')"
proof -
  let ?col = "column prev (nat c)"
  let ?colTiles = "compacted prev (nat c)"
  let ?needed = "nat (GRID_SIZE - int (length ?colTiles))"
  let ?gen = "newTiles rnd lvl m ?needed q k"
  let ?merged = "fst ?gen @ ?colTiles"
  let ?ng' = "fold (\<lambda>r g. setCell g (r, c) (?merged ! nat r)) [0..GRID_SIZE - 1] ng"
  have read: "those (map (\<lambda>r. cell prev (r, c)) [0..GRID_SIZE - 1]) = Some ?col"
    using prev c by (rule column_read)
  have step: "gravityColumn rnd lvl m prev c (ng, q, k) = Some (?ng', snd ?gen)"
    by (simp add: gravityColumn_def read Let_def compacted_def)
  have "length ?col = 6" using prev by (simp add: column_def wf_grid_def)
  then have "length ?colTiles \<le> 6"
    unfolding compacted_def
    by (metis length_filter_le length_map)
  then have lm: "length ?merged = 6"
    using newTiles_fresh [of rnd lvl m ?needed q k] by (simp add: GRID_SIZE_def)
  have rows: "\<forall>r \<in> set [0..GRID_SIZE - 1]. 0 \<le> r \<and> r < 6" by (simp add: GRID_SIZE_def)
  note wr = cell_write_column [OF ng c rows, of "\<lambda>r. ?merged ! nat r"]
  have wf': "wf_grid ?ng'" using wr by blast
  have cellc: "\<And>r. r < 6 \<Longrightarrow> cell ?ng' (int r, c) = Some (?merged ! r)"
    using wr [of "(int r, c)" for r] by (simp add: GRID_SIZE_def)
  have cello: "\<And>r c'. c' \<noteq> c \<Longrightarrow> cell ?ng' (r, c') = cell ng (r, c')"
    using wr [of "(r, c')" for r c'] by simp
  have colc: "column ?ng' (nat c) = ?merged"
  proof -
    have "column ?ng' (nat c) = map (\<lambda>r. the (cell ?ng' (int r, int (nat c)))) [0..<6]"
      using c by (intro column_cells [OF wf']) simp
    also have "\<dots> = map (\<lambda>r. ?merged ! r) [0..<6]"
      using c by (intro map_cong [OF refl]) (simp add: cellc)
    also have "\<dots> = ?merged"
      using lm map_nth [of ?merged] by simp
    finally show ?thesis .
  qed
  have other: "\<forall>c' < 6. c' \<noteq> nat c \<longrightarrow> column ?ng' c' = column ng c'"
  proof (intro allI impI)
    fix c' :: nat assume c': "c' < 6" "c' \<noteq> nat c"
    then have ne: "int c' \<noteq> c" using c by auto
    show "column ?ng' c' = column ng c'"
      unfolding column_cells [OF wf' c'(1)] column_cells [OF ng c'(1)]
      using ne by (intro map_cong [OF refl]) (simp add: cello)
  qed
  have fresh: "\<forall>t \<in> set (fst ?gen). freshTile rnd t"
    using newTiles_fresh by blast
  obtain q' k' where qk: "snd ?gen = (q', k')" by (cases "snd ?gen")
  show ?thesis
    using step wf' colc fresh other unfolding qk by blast
qed

lemma gravityColumns_result:
  assumes prev: "wf_grid prev"
  shows "wf_grid ng \<Longrightarrow> distinct cs \<Longrightarrow> \<forall>c \<in> set cs. 0 \<le> c \<and> c < 6 \<Longrightarrow>
         \<exists>ng' q' k'.
           gravityColumns rnd lvl m prev cs (ng, q, k) = Some (ng', q', k') \<and>
           wf_grid ng' \<and>
           (\<forall>c' < 6. if int c' \<in> set cs
                     then \<exists>new. column ng' c' = new @ compacted prev c' \<and>
                                (\<forall>t \<in> set new. freshTile rnd t)
                     else column ng' c' = column ng c')"
proof (induction cs arbitrary: ng q k)
  case Nil
  then show ?case by simp
next
  case (Cons c cs)
  then have c: "0 \<le> c" "c < 6" and notin: "c \<notin> set cs" by simp_all
  from gravityColumn_result [OF prev Cons.prems(1) c, of rnd lvl m q k]
  obtain ng1 q1 k1 new where
    step: "gravityColumn rnd lvl m prev c (ng, q, k) = Some (ng1, q1, k1)"
    and wf1: "wf_grid ng1"
    and col1: "column ng1 (nat c) = new @ compacted prev (nat c)"
    and fresh1: "\<forall>t \<in> set new. freshTile rnd t"
    and other1: "\<forall>c' < 6. c' \<noteq> nat c \<longrightarrow> column ng1 c' = column ng c'"
    by blast
  from Cons.IH [OF wf1, of q1 k1] Cons.prems(2,3)
  obtain ng' q' k' where
    rest: "gravityColumns rnd lvl m prev cs (ng1, q1, k1) = Some (ng', q', k')"
    and wf': "wf_grid ng'"
    and cols: "\<forall>c' < 6. if int c' \<in> set cs
                     then \<exists>new. column ng' c' = new @ compacted prev c' \<and>
                                (\<forall>t \<in> set new. freshTile rnd t)
                     else column ng' c' = column ng1 c'"
    by auto
  have run: "gravityColumns rnd lvl m prev (c # cs) (ng, q, k) = Some (ng', q', k')"
    by (simp add: step rest)
  have "\<forall>c' < 6. if int c' \<in> set (c # cs)
                     then \<exists>new. column ng' c' = new @ compacted prev c' \<and>
                                (\<forall>t \<in> set new. freshTile rnd t)
                     else column ng' c' = column ng c'"
  proof (intro allI impI)
    fix c' :: nat assume c': "c' < 6"
    show "if int c' \<in> set (c # cs)
                     then \<exists>new. column ng' c' = new @ compacted prev c' \<and>
                                (\<forall>t \<in> set new. freshTile rnd t)
                     else column ng' c' = column ng c'"
    proof (cases "int c' \<in> set cs")
      case True
      with cols c' show ?thesis by simp
    next
      case False
      with cols c' have same: "column ng' c' = column ng1 c'" by simp
      show ?thesis
      proof (cases "int c' = c")
        case True
        then have "nat c = c'" by auto
        with same col1 fresh1 True show ?thesis by auto
      next
        case ne: False
        then have "c' \<noteq> nat c" using c by auto
        with other1 c' same False ne show ?thesis by simp
      qed
    qed
  qed
  with run wf' show ?case by blast
qed

lemma applyGravity_result:
  assumes "wf_grid (grid st)"
  shows "\<exists>st'. applyGravity rnd st = Some st' \<and> wf_grid (grid st') \<and>
           \<not> animating st' \<and> selection st' = [] \<and> gameState st' = gameState st \<and>
           screen st' = screen st \<and>
           (\<forall>c < 6. \<exists>new. column (grid st') c = new @ compacted (grid st) c \<and>
                           (\<forall>t \<in> set new. freshTile rnd t))"
proof -
  have cols: "distinct [0..GRID_SIZE - 1]" "\<forall>c \<in> set [0..GRID_SIZE - 1]. 0 \<le> c \<and> c < 6"
    by (simp_all add: GRID_SIZE_def)
  from gravityColumns_result [OF assms assms cols,
      of rnd "level (gameState st)" "mode st" "specialSpawnQueue st" "drawn st"]
  obtain ng' q' k' where
    run: "gravityColumns rnd (level (gameState st)) (mode st) (grid st) [0..GRID_SIZE - 1]
            (grid st, specialSpawnQueue st, drawn st) = Some (ng', q', k')"
    and wf': "wf_grid ng'"
    and res: "\<forall>c' < 6. if int c' \<in> set [0..GRID_SIZE - 1]
                     then \<exists>new. column ng' c' = new @ compacted (grid st) c' \<and>
                                (\<forall>t \<in> set new. freshTile rnd t)
                     else column ng' c' = column (grid st) c'"
    by blast
  have "\<forall>c < 6. \<exists>new. column ng' c = new @ compacted (grid st) c \<and>
                           (\<forall>t \<in> set new. freshTile rnd t)"
  proof (intro allI impI)
    fix c :: nat assume "c < 6"
    moreover from this have "int c \<in> set [0..GRID_SIZE - 1]" by (simp add: GRID_SIZE_def)
    ultimately show "\<exists>new. column ng' c = new @ compacted (grid st) c \<and>
                           (\<forall>t \<in> set new. freshTile rnd t)"
      using res by auto
  qed
  with run wf' show ?thesis
    by (simp add: applyGravity_def)
qed

lemma cell_in_column:
  assumes "wf_grid g" and "cell g p = Some tile"
  shows "\<exists>c < 6. tile \<in> set (column g c)"
proof -
  obtain r c where p: "p = (r, c)" by (cases p)
  from assms(1) have len: "length g = 6" and rows: "\<forall>row \<in> set g. length row = 6"
    by (simp_all add: wf_grid_def list_all_iff)
  from assms(2) p len have r: "0 \<le> r" "r < 6"
      and c: "0 \<le> c" "c < int (length (g ! nat r))" and t: "tile = g ! nat r ! nat c"
    by (auto simp: cell_def split: if_splits)
  from r len have mem: "g ! nat r \<in> set g" by (intro nth_mem) simp
  with rows c have c6: "nat c < 6" by auto
  have "tile \<in> set (column g (nat c))"
    unfolding column_def t using mem by auto
  with c6 show ?thesis by blast
qed


lemma wf_grid_setStatus: "wf_grid g \<Longrightarrow> wf_grid (setStatus s p g)"
  by (cases "cell g p") (simp_all add: setStatus_def wf_grid_setCell)

lemma wf_grid_fold_setStatus: "wf_grid g \<Longrightarrow> wf_grid (fold (setStatus s) ps g)"
  by (induction ps arbitrary: g) (simp_all add: wf_grid_setStatus)

lemma sample_commit:
  "\<exists>st1. handleTouchEnd sampleApp = Some st1 \<and> grid st1 = committedGrid \<and> animating st1 \<and>
         trie st1 = trie sampleApp \<and> screen st1 = GAME \<and> \<not> isLoading st1"
proof -
  have gates: "\<not> animating sampleApp" "\<not> isLoading sampleApp" "screen sampleApp = GAME"
      "selection sampleApp \<noteq> []" "wf_grid (grid sampleApp)"
      "\<forall>p \<in> set (selection sampleApp). inBounds 6 6 p"
    by (simp_all add: sampleApp_def wf_sampleGrid inBounds_def)
  have dict: "3 \<le> length ''CAT''" "''CAT'' \<in> dictionary sampleApp"
    by (simp_all add: sampleApp_def)
  from handleTouchEnd_valid [OF gates refl sample_word [symmetric] dict]
  obtain ex st1 where ex: "explodeBombs (grid sampleApp) (selection sampleApp)
             (filter (\<lambda>p. isBomb (the (cell (grid sampleApp) p))) (selection sampleApp)) [] = Some ex"
    and h: "handleTouchEnd sampleApp = Some st1"
    and g: "grid st1 = fold (setStatus EXPLODED) ex
               (fold (setStatus MATCHED) (selection sampleApp) (grid sampleApp))"
    and rest: "animating st1" "trie st1 = trie sampleApp" "screen st1 = screen sampleApp"
       "isLoading st1 = isLoading sampleApp"
    by force
  have "explodeBombs sampleGrid [(0, 0), (0, 1), (0, 2)] [(0, 2)] [] = Some ex"
    using ex by (simp add: sampleApp_def sample_cells plainTile_def del: explodeBombs.simps)
  then have "ex = [(0, 3), (1, 1), (1, 2), (1, 3)]"
    by (simp only: sample_explosion option.inject)
  with g have "grid st1 = committedGrid"
    by (simp add: committedGrid_def sampleApp_def)
  with h rest gates show ?thesis by simp
qed

lemma wf_committedGrid: "wf_grid committedGrid"
  unfolding committedGrid_def by (intro wf_grid_fold_setStatus wf_sampleGrid)

lemma cell_xRow:
  "0 < r \<Longrightarrow> r < 6 \<Longrightarrow> 0 \<le> c \<Longrightarrow> c < 6 \<Longrightarrow> cell sampleGrid (r, c) = Some (plainTile ''X'' ''PINK'')"
proof -
  assume a: "0 < r" "r < 6" "0 \<le> c" "c < 6"
  then have "r = 1 \<or> r = 2 \<or> r = 3 \<or> r = 4 \<or> r = 5" by arith
  moreover from a have "c = 0 \<or> c = 1 \<or> c = 2 \<or> c = 3 \<or> c = 4 \<or> c = 5" by arith
  ultimately show ?thesis
    by (elim disjE) (simp_all add: cell_def sampleGrid_def xRow_simp)
qed

lemma committed_column1:
  "column committedGrid 1 =
     [(plainTile ''A'' ''BLUE'')\<lparr>status := MATCHED\<rparr>, (plainTile ''X'' ''PINK'')\<lparr>status := EXPLODED\<rparr>,
      plainTile ''X'' ''PINK'', plainTile ''X'' ''PINK'', plainTile ''X'' ''PINK'', plainTile ''X'' ''PINK'']"
proof -
  have "column committedGrid 1 = map (\<lambda>r. the (cell committedGrid (int r, int 1))) [0..<6]"
    by (rule column_cells [OF wf_committedGrid]) simp
  also have "\<dots> = [(plainTile ''A'' ''BLUE'')\<lparr>status := MATCHED\<rparr>, (plainTile ''X'' ''PINK'')\<lparr>status := EXPLODED\<rparr>,
      plainTile ''X'' ''PINK'', plainTile ''X'' ''PINK'', plainTile ''X'' ''PINK'', plainTile ''X'' ''PINK'']"
    by (simp add: upt_conv_Cons committedGrid_def cell_setStatus sample_cells cell_xRow)
  finally show ?thesis .
qed

text \<open>
  C2: on a grid of six rows of six tiles \<open>applyGravity\<close> completes with such a grid
  again, so every column holds exactly 6 tiles. Every column is the newly generated
  tiles, each with \<open>isNew\<close> set, followed by the tiles of the old column whose status
  was neither MATCHED nor EXPLODED, in their old top-to-bottom order and with \<open>isNew\<close>
  cleared.
\<close>

theorem applyGravity_columns:
  assumes "wf_grid (grid st)"
  shows "\<exists>st'. applyGravity rnd st = Some st' \<and> wf_grid (grid st') \<and>
           (\<forall>c < 6. length (column (grid st') c) = 6 \<and>
              (\<exists>new. column (grid st') c
                        = new @ map (\<lambda>tile. tile\<lparr>isNew := False\<rparr>)
                                  (filter (\<lambda>tile. status tile \<noteq> MATCHED \<and> status tile \<noteq> EXPLODED)
                                     (column (grid st) c)) \<and>
                      (\<forall>t \<in> set new. isNew t)))"
proof -
  from applyGravity_result [OF assms, of rnd]
  obtain st' where run: "applyGravity rnd st = Some st'" and wf': "wf_grid (grid st')"
    and cols: "\<forall>c < 6. \<exists>new. column (grid st') c = new @ compacted (grid st) c \<and>
                           (\<forall>t \<in> set new. freshTile rnd t)"
    by blast
  have len: "\<forall>c < 6. length (column (grid st') c) = 6"
    using wf' by (simp add: column_def wf_grid_def)
  have "\<And>c. compacted (grid st) c = map (\<lambda>tile. tile\<lparr>isNew := False\<rparr>)
                                  (filter (\<lambda>tile. status tile \<noteq> MATCHED \<and> status tile \<noteq> EXPLODED)
                                     (column (grid st) c))"
    unfolding compacted_def survives_def by (rule refl)
  with cols len run wf' show ?thesis by (auto simp: freshTile_def)
qed

text \<open>After CAT is committed on the sample board, column 1 has lost the A (matched) and
  the X below it (exploded): gravity puts two new tiles above the four surviving X
  tiles.\<close>

theorem applyGravity_columns_witness:
  "\<exists>st'. applyGravity (\<lambda>_. \<lparr>draw_id = [], draw_key = 0, draw_roll = 1 / 2, draw_letter = 0,
                             draw_wild = 1 / 2, draw_color = 0\<rparr>)
            (the (handleTouchEnd sampleApp)) = Some st' \<and>
         wf_grid (grid st') \<and>
         map isNew (column (grid st') 1) = [True, True, False, False, False, False] \<and>
         map letter (column (grid st') 1) ! 2 = ''X''"
proof -
  let ?rnd = "\<lambda>_ :: nat. \<lparr>draw_id = [], draw_key = 0, draw_roll = 1 / 2, draw_letter = 0,
                             draw_wild = 1 / 2, draw_color = 0\<rparr>"
  from sample_commit obtain st1 where st1: "the (handleTouchEnd sampleApp) = st1"
    and g1: "grid st1 = committedGrid" by auto
  have wf: "wf_grid (grid st1)" by (simp add: g1 wf_committedGrid)
  from applyGravity_columns [OF wf, of ?rnd]
  obtain st' where run: "applyGravity ?rnd st1 = Some st'" and wf': "wf_grid (grid st')"
    and cols: "\<forall>c < 6. length (column (grid st') c) = 6 \<and>
              (\<exists>new. column (grid st') c
                        = new @ map (\<lambda>tile. tile\<lparr>isNew := False\<rparr>)
                                  (filter (\<lambda>tile. status tile \<noteq> MATCHED \<and> status tile \<noteq> EXPLODED)
                                     (column (grid st1) c)) \<and>
                      (\<forall>t \<in> set new. isNew t))"
    by blast
  have "(1 :: nat) < 6" by simp
  with cols obtain new where len: "length (column (grid st') 1) = 6"
    and col: "column (grid st') 1
                = new @ map (\<lambda>tile. tile\<lparr>isNew := False\<rparr>)
                          (filter (\<lambda>tile. status tile \<noteq> MATCHED \<and> status tile \<noteq> EXPLODED)
                             (column (grid st1) 1))"
    and new: "\<forall>t \<in> set new. isNew t"
    by blast
  have surv: "map (\<lambda>tile. tile\<lparr>isNew := False\<rparr>)
                          (filter (\<lambda>tile. status tile \<noteq> MATCHED \<and> status tile \<noteq> EXPLODED)
                             (column (grid st1) 1))
                = replicate 4 (plainTile ''X'' ''PINK'')"
    unfolding g1 committed_column1 by (simp add: plainTile_def eval_nat_numeral)
  with len col have "length new = 2" by simp
  then obtain a b where ab: "new = [a, b]"
    by (auto simp: numeral_2_eq_2 length_Suc_conv)
  with new have "isNew a" "isNew b" by simp_all
  with col surv ab have "map isNew (column (grid st') 1) = [True, True, False, False, False, False]"
      and "map letter (column (grid st') 1) ! 2 = ''X''"
    by (simp_all add: plainTile_def eval_nat_numeral)
  with run wf' st1 show ?thesis by simp
qed

section \<open>Unblocked tiles carry a letter\<close>

text \<open>The initial grid and every refill generate lettered tiles, provided the letter draws
  respect the contract of \<open>Math.random()\<close>; status updates keep the letters.\<close>

lemma lettered_iff_cells:
  "lettered g \<longleftrightarrow> (\<forall>p tile. cell g p = Some tile \<longrightarrow> isBlocked tile \<or> letter tile \<noteq> [])"
proof
  assume "lettered g"
  then show "\<forall>p tile. cell g p = Some tile \<longrightarrow> isBlocked tile \<or> letter tile \<noteq> []"
    using lettered_cell by blast
next
  assume cells: "\<forall>p tile. cell g p = Some tile \<longrightarrow> isBlocked tile \<or> letter tile \<noteq> []"
  have "\<forall>row \<in> set g. \<forall>tile \<in> set row. isBlocked tile \<or> letter tile \<noteq> []"
  proof (intro ballI)
    fix row tile assume "row \<in> set g" and "tile \<in> set row"
    then obtain r c where r: "r < length g" "row = g ! r" and c: "c < length row" "tile = row ! c"
      by (metis in_set_conv_nth)
    then have "cell g (int r, int c) = Some tile" by (simp add: cell_def)
    with cells show "isBlocked tile \<or> letter tile \<noteq> []" by blast
  qed
  then show "lettered g" by (simp add: lettered_def list_all_iff)
qed

lemma lettered_transfer:
  assumes "lettered g"
    and "\<And>p tile. cell g' p = Some tile \<Longrightarrow>
           \<exists>old. cell g p = Some old \<and> isBlocked tile = isBlocked old \<and> letter tile = letter old"
  shows "lettered g'"
  unfolding lettered_iff_cells
proof (intro allI impI)
  fix p tile assume "cell g' p = Some tile"
  from assms(2) [OF this] obtain old where "cell g p = Some old"
    and "isBlocked tile = isBlocked old" and "letter tile = letter old" by blast
  with assms(1) show "isBlocked tile \<or> letter tile \<noteq> []"
    unfolding lettered_iff_cells by metis
qed

lemma lettered_fold_setStatus: "lettered g \<Longrightarrow> lettered (fold (setStatus s) ps g)"
  by (erule lettered_transfer) (auto simp: cell_fold_setStatus split: if_splits)

lemma lettered_updateTileStatus: "lettered g \<Longrightarrow> lettered (updateTileStatus g sel s)"
proof -
  assume l: "lettered g"
  let ?f = "\<lambda>tile. tile\<lparr>status :=
          (if status tile = MATCHED \<or> status tile = EXPLODED then status tile else IDLE)\<rparr>"
  have "lettered (map (map ?f) g)"
    using l by (rule lettered_transfer) (auto simp: cell_map_map)
  then show ?thesis
    unfolding updateTileStatus_def by (rule lettered_fold_setStatus)
qed

lemma column_tiles:
  assumes "wf_grid g" and "c < 6" and "tile \<in> set (column g c)"
  shows "\<exists>p. cell g p = Some tile"
proof -
  from assms(3) have "tile \<in> set (map (\<lambda>r. the (cell g (int r, int c))) [0..<6])"
    by (simp only: column_cells [OF assms(1,2)])
  then obtain r where r: "r < 6" and t: "tile = the (cell g (int r, int c))" by auto
  from r assms(2) have "inBounds 6 6 (int r, int c)" by (simp add: inBounds_def)
  with wf_grid_cell [OF assms(1)] t show ?thesis by fastforce
qed

lemma applyGravity_lettered:
  assumes wf: "wf_grid (grid st)" and l: "lettered (grid st)" and rnd: "letterDrawsInRange rnd"
    and run: "applyGravity rnd st = Some st'"
  shows "lettered (grid st')"
  unfolding lettered_iff_cells
proof (intro allI impI)
  fix p tile assume tile: "cell (grid st') p = Some tile"
  from applyGravity_result [OF wf, of rnd] run
  have wf': "wf_grid (grid st')"
    and cols: "\<forall>c < 6. \<exists>new. column (grid st') c = new @ compacted (grid st) c \<and>
                           (\<forall>t \<in> set new. freshTile rnd t)"
    by auto
  from cell_in_column [OF wf' tile] obtain c where c: "c < 6" "tile \<in> set (column (grid st') c)"
    by blast
  with cols obtain new where col: "column (grid st') c = new @ compacted (grid st) c"
    and fresh: "\<forall>t \<in> set new. freshTile rnd t" by blast
  from c(2) col consider "tile \<in> set new" | "tile \<in> set (compacted (grid st) c)" by auto
  then show "isBlocked tile \<or> letter tile \<noteq> []"
  proof cases
    case 1
    with fresh rnd show ?thesis by (auto simp: freshTile_def)
  next
    case 2
    then obtain old where old: "old \<in> set (column (grid st) c)" and t: "tile = old\<lparr>isNew := False\<rparr>"
      by (auto simp: compacted_def)
    from column_tiles [OF wf c(1) old] l have "isBlocked old \<or> letter old \<noteq> []"
      unfolding lettered_iff_cells by blast
    with t show ?thesis by simp
  qed
qed

lemma createInitialGrid_wf: "wf_grid (createInitialGrid rnd k lvl m)"
  by (simp add: createInitialGrid_def wf_grid_def list_all_iff)

lemma createInitialGrid_lettered:
  assumes "letterDrawsInRange rnd"
  shows "lettered (createInitialGrid rnd k lvl m)"
proof -
  have "\<And>j. isBlocked (generateTile 1 m False None (rnd j))
              \<or> letter (generateTile 1 m False None (rnd j)) \<noteq> []"
  proof -
    fix j
    from assms have "0 \<le> draw_letter (rnd j)" "draw_letter (rnd j) < 1"
      by (simp_all add: letterDrawsInRange_def)
    from generateTile_lettered [OF this, of 1 m False None]
    show "isBlocked (generateTile 1 m False None (rnd j))
              \<or> letter (generateTile 1 m False None (rnd j)) \<noteq> []" by auto
  qed
  then show ?thesis
    by (simp add: createInitialGrid_def lettered_def list_all_iff)
qed

section \<open>The deadlock search\<close>

lemma rect_cell:
  assumes "rect g rows cols" and "inBounds rows cols p"
  shows "\<exists>tile. cell g p = Some tile"
proof -
  obtain r c where p: "p = (r, c)" by (cases p)
  from assms p have r: "0 \<le> r" "r < int (length g)" and c: "0 \<le> c" "c < cols"
    by (simp_all add: inBounds_def rect_def)
  from r have "g ! nat r \<in> set g" by (intro nth_mem) simp
  with assms(1) have "int (length (g ! nat r)) = cols" by (simp add: rect_def list_all_iff)
  with r c show ?thesis by (simp add: p cell_def)
qed

lemma search_props:
  "lettered g \<Longrightarrow> length path \<le> length cur \<Longrightarrow> length cur < 8 \<Longrightarrow>
     search g t rows cols p path cur = Some (Some res) \<Longrightarrow>
     length res \<le> 8 \<and>
     (\<exists>ext. res = path @ ext \<and> (\<forall>q \<in> set ext. \<exists>tile. cell g q = Some tile \<and> \<not> isBlocked tile))"
  "lettered g \<Longrightarrow> length path < length str \<Longrightarrow> length str < 8 \<Longrightarrow>
     \<exists>tile. cell g p = Some tile \<and> \<not> isBlocked tile \<Longrightarrow>
     search_loop g t rows cols p path str i = Some (Some res) \<Longrightarrow>
     length res \<le> 8 \<and>
     (\<exists>ext. res = path @ ext \<and> (\<forall>q \<in> set ext. \<exists>tile. cell g q = Some tile \<and> \<not> isBlocked tile))"
proof (induction g t rows cols p path cur and g t rows cols p path str i
       arbitrary: res and res rule: search_search_loop.induct)
  case (1 g t rows cols p path currentStr)
  note run = "1.prems"(4) [unfolded search.simps [of g t rows cols p path currentStr]]
  from run obtain tile where tile: "cell g p = Some tile"
    by (auto split: option.splits)
  let ?str = "currentStr @ letter tile"
  from run tile have nb: "\<not> isBlocked tile" and nz: "trie_search t ?str \<noteq> 0"
    by (auto split: if_splits)
  from "1.prems"(1) tile nb have "letter tile \<noteq> []" using lettered_cell by blast
  then have longer: "length path < length ?str" using "1.prems"(2) by (cases "letter tile") auto
  show ?case
  proof (cases "trie_search t ?str = 2 \<and> length ?str \<ge> MIN_WORD_LENGTH")
    case True
    with run tile nb nz have "res = path @ [p]" by simp
    with "1.prems"(2,3) tile nb show ?thesis by auto
  next
    case False
    with run tile nb nz have short: "length ?str < 8"
      and loop: "search_loop g t rows cols p path ?str 0 = Some (Some res)"
      by (auto split: if_splits)
    from short have "\<not> 8 \<le> length ?str" by simp
    from "1.IH" [OF tile nb nz False this "1.prems"(1) longer short _ loop] tile nb
    show ?thesis by blast
  qed
next
  case (2 g t rows cols p path str i)
  let ?n = "neighbors p ! i"
  note run = "2.prems"(5) [unfolded search_loop.simps [of g t rows cols p path str i]]
  from run have i: "\<not> length (neighbors p) \<le> i"
    by (auto split: if_splits)
  show ?case
  proof (cases "inBounds rows cols ?n \<and> ?n \<notin> set path")
    case True
    show ?thesis
    proof (cases "search g t rows cols ?n (path @ [p]) str")
      case None
      with run i True show ?thesis by simp
    next
      case (Some found)
      show ?thesis
      proof (cases found)
        case None
        with Some run i True
        have "search_loop g t rows cols p path str (Suc i) = Some (Some res)" by simp
        from "2.IH"(2) [OF i True Some None "2.prems"(1-4) this]
        show ?thesis .
      next
        case (Some r')
        with \<open>search g t rows cols ?n (path @ [p]) str = Some found\<close> run i True
        have eq: "search g t rows cols ?n (path @ [p]) str = Some (Some res)" by simp
        have "length (path @ [p]) \<le> length str" using "2.prems"(2) by simp
        from "2.IH"(1) [OF i True "2.prems"(1) this "2.prems"(3) eq]
        obtain ext where "length res \<le> 8" and "res = (path @ [p]) @ ext"
          and "\<forall>q \<in> set ext. \<exists>tile. cell g q = Some tile \<and> \<not> isBlocked tile" by blast
        with "2.prems"(4) show ?thesis by auto
      qed
    qed
  next
    case False
    with run i
    have "search_loop g t rows cols p path str (Suc i) = Some (Some res)" by auto
    from "2.IH"(3) [OF i False "2.prems"(1-4) this]
    show ?thesis .
  qed
qed

lemma search_returns:
  "rect g rows cols \<Longrightarrow> inBounds rows cols p \<Longrightarrow>
     \<exists>result. search g t rows cols p path cur = Some result"
  "rect g rows cols \<Longrightarrow> inBounds rows cols p \<Longrightarrow>
     \<exists>result. search_loop g t rows cols p path str i = Some result"
proof (induction g t rows cols p path cur and g t rows cols p path str i
       rule: search_search_loop.induct)
  case (1 g t rows cols p path currentStr)
  from rect_cell [OF "1.prems"] obtain tile where tile: "cell g p = Some tile" by blast
  let ?str = "currentStr @ letter tile"
  show ?case
  proof (cases "\<not> isBlocked tile \<and> trie_search t ?str \<noteq> 0 \<and>
                \<not> (trie_search t ?str = 2 \<and> length ?str \<ge> MIN_WORD_LENGTH) \<and> \<not> 8 \<le> length ?str")
    case True
    with "1.IH" [OF tile _ _ _ _ "1.prems"] obtain result
      where "search_loop g t rows cols p path ?str 0 = Some result" by blast
    with True tile show ?thesis
      by (subst search.simps) simp
  next
    case False
    with tile show ?thesis
      by (subst search.simps) auto
  qed
next
  case (2 g t rows cols p path str i)
  let ?n = "neighbors p ! i"
  show ?case
  proof (cases "length (neighbors p) \<le> i")
    case True
    then show ?thesis by (subst search_loop.simps) simp
  next
    case i: False
    show ?thesis
    proof (cases "inBounds rows cols ?n \<and> ?n \<notin> set path")
      case True
      from "2.IH"(1) [OF i True "2.prems"(1)] True
      obtain found where found: "search g t rows cols ?n (path @ [p]) str = Some found" by blast
      show ?thesis
      proof (cases found)
        case None
        from "2.IH"(2) [OF i True found None "2.prems"]
        obtain result where "search_loop g t rows cols p path str (Suc i) = Some result" by blast
        with i True found None show ?thesis
          by (subst search_loop.simps) simp
      next
        case (Some r')
        with i True found show ?thesis
          by (subst search_loop.simps) simp
      qed
    next
      case False
      from "2.IH"(3) [OF i False "2.prems"]
      obtain result where "search_loop g t rows cols p path str (Suc i) = Some result" by blast
      with i False show ?thesis
        by (subst search_loop.simps) auto
    qed
  qed
qed

lemma findFrom_returns:
  assumes "rect g rows cols" and "\<forall>p \<in> set ps. inBounds rows cols p"
  shows "\<exists>result. findFrom g t rows cols ps = Some result"
  using assms(2)
proof (induction ps)
  case Nil
  then show ?case by simp
next
  case (Cons p ps)
  then have "inBounds rows cols p" by simp
  from search_returns(1) [OF assms(1) this, of t "[]" "[]"]
  obtain found where "search g t rows cols p [] [] = Some found" by blast
  with Cons show ?case by (cases found) auto
qed

lemma findFrom_props:
  assumes "lettered g" and "findFrom g t rows cols ps = Some (Some res)"
  shows "length res \<le> 8 \<and> (\<forall>q \<in> set res. \<exists>tile. cell g q = Some tile \<and> \<not> isBlocked tile)"
  using assms(2)
proof (induction ps)
  case Nil
  then show ?case by simp
next
  case (Cons p ps)
  show ?case
  proof (cases "search g t rows cols p [] []")
    case None
    with Cons.prems show ?thesis by simp
  next
    case (Some found)
    show ?thesis
    proof (cases found)
      case None
      with Some Cons show ?thesis by simp
    next
      case (Some r')
      with \<open>search g t rows cols p [] [] = Some found\<close> Cons.prems
      have "search g t rows cols p [] [] = Some (Some res)" by simp
      from search_props(1) [OF assms(1) _ _ this] show ?thesis by auto
    qed
  qed
qed

lemma startCells_inBounds: "\<forall>p \<in> set (startCells rows cols). inBounds (int rows) (int cols) p"
  by (auto simp: startCells_def inBounds_def)

lemma findFirstWord_findFrom:
  "g \<noteq> [] \<Longrightarrow> findFirstWord g t
      = findFrom g t (int (length g)) (int (length (hd g))) (startCells (length g) (length (hd g)))"
  by (cases g) (simp_all add: findFirstWord_def startCells_def)




lemma search_CAT:
  assumes a: "cell g (0, 0) = Some a" "\<not> isBlocked a" "letter a = ''C''"
    and b: "cell g (0, 1) = Some b" "\<not> isBlocked b" "letter b = ''A''"
    and c: "cell g (0, 2) = Some c" "\<not> isBlocked c" "letter c = ''T''"
  shows "search g (buildTrie [''CAT'']) 6 6 (0, 0) [] [] = Some (Some [(0, 0), (0, 1), (0, 2)])"
proof -
  let ?t = "buildTrie [''CAT'']"
  have T: "search g ?t 6 6 (0, 2) [(0, 0), (0, 1)] ''CA'' = Some (Some [(0, 0), (0, 1), (0, 2)])"
    by (subst search.simps) (simp add: c trie_search_build MIN_WORD_LENGTH_def)
  have LA: "search_loop g ?t 6 6 (0, 1) [(0, 0)] ''CA'' 0 = Some (Some [(0, 0), (0, 1), (0, 2)])"
    by (simp add: search_loop.simps neighbors_def inBounds_def T)
  have A: "search g ?t 6 6 (0, 1) [(0, 0)] ''C'' = Some (Some [(0, 0), (0, 1), (0, 2)])"
    by (subst search.simps) (simp add: b trie_search_build MIN_WORD_LENGTH_def LA)
  have LC: "search_loop g ?t 6 6 (0, 0) [] ''C'' 0 = Some (Some [(0, 0), (0, 1), (0, 2)])"
    by (simp add: search_loop.simps neighbors_def inBounds_def A)
  show ?thesis
    by (subst search.simps) (simp add: a trie_search_build MIN_WORD_LENGTH_def LC)
qed

lemma findFirstWord_CAT:
  assumes "wf_grid g"
    and "cell g (0, 0) = Some a" "\<not> isBlocked a" "letter a = ''C''"
    and "cell g (0, 1) = Some b" "\<not> isBlocked b" "letter b = ''A''"
    and "cell g (0, 2) = Some c" "\<not> isBlocked c" "letter c = ''T''"
  shows "findFirstWord g (buildTrie [''CAT'']) = Some (Some [(0, 0), (0, 1), (0, 2)])"
proof -
  from assms(1) have len: "length g = 6" and "\<forall>row \<in> set g. length row = 6"
    by (simp_all add: wf_grid_def list_all_iff)
  then have ne: "g \<noteq> []" and hd: "length (hd g) = 6" by (cases g; auto)+
  have "startCells 6 6 = (0, 0) # tl (startCells 6 6)"
    by (simp add: startCells_def upt_conv_Cons)
  then obtain rest where "startCells 6 6 = (0, 0) # rest" by blast
  then show ?thesis
    using search_CAT [OF assms(2-)] by (simp add: findFirstWord_findFrom [OF ne] len hd)
qed


lemma rect_sampleGrid: "rect sampleGrid (int (length sampleGrid)) (int (length (hd sampleGrid)))"
  by (simp add: rect_def sampleGrid_def xRow_simp)

text \<open>
  C7: the recursion of \<open>search\<close> is well-founded on every grid (the termination proof
  of its definition: each recursive call visits a cell of the board that is neither on
  the path nor the current cell, so the number of such cells decreases), and on every
  non-empty rectangular grid \<open>findFirstWord\<close> returns without a TypeError. Once the
  accumulated string has 8 characters or more, \<open>search\<close> explores no neighbour: it
  returns the path that ends in the current cell (the string is a word) or \<open>null\<close>.
  On a board whose unblocked tiles carry a letter, a returned path has at most 8
  coordinates.
\<close>

theorem findFirstWord_bounded:
  "(g \<noteq> [] \<and> rect g (int (length g)) (int (length (hd g)))
      \<longrightarrow> (\<exists>result. findFirstWord g t = Some result)) \<and>
   (lettered g \<and> findFirstWord g t = Some (Some found) \<longrightarrow> length found \<le> 8) \<and>
   (cell g p = Some tile \<and> 8 \<le> length (currentStr @ letter tile)
      \<longrightarrow> search g t rows cols p path currentStr = Some None
          \<or> search g t rows cols p path currentStr = Some (Some (path @ [p])))"
proof (intro conjI impI)
  assume a: "g \<noteq> [] \<and> rect g (int (length g)) (int (length (hd g)))"
  then show "\<exists>result. findFirstWord g t = Some result"
    using findFrom_returns [OF _ startCells_inBounds] by (simp add: findFirstWord_findFrom)
next
  assume a: "lettered g \<and> findFirstWord g t = Some (Some found)"
  then have "g \<noteq> []" by (auto simp: findFirstWord_def)
  with a show "length found \<le> 8"
    using findFrom_props by (simp add: findFirstWord_findFrom) blast
next
  assume "cell g p = Some tile \<and> 8 \<le> length (currentStr @ letter tile)"
  then show "search g t rows cols p path currentStr = Some None
          \<or> search g t rows cols p path currentStr = Some (Some (path @ [p]))"
    by (subst (1 2) search.simps) simp
qed

text \<open>On the sample board the search finds C-A-T, a path of three coordinates; started
  on the C tile with seven characters already accumulated, it returns at once.\<close>

theorem findFirstWord_bounded_witness:
  "findFirstWord sampleGrid (buildTrie [''CAT'']) = Some (Some [(0, 0), (0, 1), (0, 2)]) \<and>
   length [(0, 0), (0, 1), (0 :: int, 2 :: int)] \<le> 8 \<and>
   (search sampleGrid (buildTrie [''CAT'']) 6 6 (0, 0) [] ''CCCCCCC'' = Some None \<or>
    search sampleGrid (buildTrie [''CAT'']) 6 6 (0, 0) [] ''CCCCCCC'' = Some (Some ([] @ [(0, 0)])))"
proof -
  let ?t = "buildTrie [''CAT'']"
  have found: "findFirstWord sampleGrid ?t = Some (Some [(0, 0), (0, 1), (0, 2)])"
    by (rule findFirstWord_CAT [OF wf_sampleGrid sample_cells(1) _ _ sample_cells(2) _ _ sample_cells(3)])
       (simp_all add: plainTile_def)
  have ne: "sampleGrid \<noteq> []" by (simp add: sampleGrid_def)
  have long: "8 \<le> length (''CCCCCCC'' @ letter (plainTile ''C'' ''BLUE''))"
    by (simp add: plainTile_def)
  note inst = findFirstWord_bounded [of sampleGrid ?t "[(0, 0), (0, 1), (0, 2)]" "(0, 0)"
      "plainTile ''C'' ''BLUE''" "''CCCCCCC''" 6 6 "[]"]
  from inst ne rect_sampleGrid lettered_sampleGrid found sample_cells(1) long
  show ?thesis by blast
qed

section \<open>Tiles pending removal\<close>




end
